theory Spec2Isabelle
  imports Main "HOL-Library.Extended_Nat" "HOL-Library.Multiset"
begin

section \<open>Python values used by savings\_comparison.py\<close>

text \<open>
  The exceptions the modelled code can raise. \<open>ZeroDivisionError\<close> comes from
  \<^verbatim>\<open>//\<close> and \<^verbatim>\<open>%\<close> with a zero divisor, \<open>IndexError\<close> from \<^verbatim>\<open>lengths[0]\<close> on an
  empty list, \<open>ValueError\<close> from \<^verbatim>\<open>max([])\<close>, and \<open>OverflowError\<close> from the true
  division \<^verbatim>\<open>int / int\<close> when the quotient is too large for a float.
\<close>

datatype error = ZeroDivisionError | IndexError | ValueError | OverflowError

text \<open>
  Python's \<^verbatim>\<open>//\<close> and \<^verbatim>\<open>%\<close> on ints are floor division and the modulus with the sign of
  the divisor, which is what \<open>div\<close> and \<open>mod\<close> on \<open>int\<close> are; a zero divisor raises.
\<close>

definition py_floordiv :: "int \<Rightarrow> int \<Rightarrow> error + int" where
  "py_floordiv a b = (if b = 0 then Inl ZeroDivisionError else Inr (a div b))"

definition py_mod :: "int \<Rightarrow> int \<Rightarrow> error + int" where
  "py_mod a b = (if b = 0 then Inl ZeroDivisionError else Inr (a mod b))"

subsection \<open>Floats\<close>

text \<open>
  \<^verbatim>\<open>(lgth * (lgth + 1)) / 2\<close> is a true division, so \<^verbatim>\<open>grand_total\<close> is a float (IEEE
  binary64). The product of two consecutive integers is even and not negative, hence
  every float of this program is a whole number that is not negative, or \<^verbatim>\<open>inf\<close>: a value
  of type \<open>enat\<close>. The numbers of a DataFrame column compare by value whether they are
  ints or floats (\<^verbatim>\<open>66795 == 66795.0\<close>), so the same type holds both.

  \<open>bit_length\<close> is \<^verbatim>\<open>int.bit_length\<close>. \<open>float_round n\<close> is the binary64 value nearest to
  the natural number \<open>n\<close>, ties to the even significand, before any overflow: 53
  significant bits are kept.
\<close>

fun bit_length :: "nat \<Rightarrow> nat" where
  "bit_length n = (if n = 0 then 0 else Suc (bit_length (n div 2)))"

declare bit_length.simps [simp del]

definition float_round :: "nat \<Rightarrow> nat" where
  "float_round n =
     (if n < 2 ^ 53 then n
      else let e = bit_length n - 53;
               q = n div 2 ^ e;
               r = n mod 2 ^ e;
               h = 2 ^ (e - 1)
           in (if h < r \<or> (r = h \<and> odd q) then q + 1 else q) * 2 ^ e)"

text \<open>
  A float operation whose rounded result reaches \<open>2 ^ 1024\<close> overflows. Addition and
  multiplication of floats then give \<^verbatim>\<open>inf\<close>; \<^verbatim>\<open>int / int\<close> raises OverflowError.
\<close>

definition to_float :: "nat \<Rightarrow> enat" where
  "to_float n = (if float_round n < 2 ^ 1024 then enat (float_round n) else \<infinity>)"

definition float_add :: "enat \<Rightarrow> enat \<Rightarrow> enat" where
  "float_add x y = (case x + y of enat n \<Rightarrow> to_float n | \<infinity> \<Rightarrow> \<infinity>)"

definition float_mul :: "enat \<Rightarrow> enat \<Rightarrow> enat" where
  "float_mul x y = (case x * y of enat n \<Rightarrow> to_float n | \<infinity> \<Rightarrow> \<infinity>)"

text \<open>
  \<open>true_div2 n\<close> is \<^verbatim>\<open>n / 2\<close> for an int \<open>n\<close> that is even and not negative, the only
  dividends this program has (lemma \<open>cycle_product\<close> below).
\<close>

definition true_div2 :: "int \<Rightarrow> error + enat" where
  "true_div2 n =
     (if float_round (nat n div 2) < 2 ^ 1024 then Inr (enat (float_round (nat n div 2)))
      else Inl OverflowError)"

text \<open>The value of a Python int that is not negative, as a number of a DataFrame column.\<close>

definition py_num :: "int \<Rightarrow> enat" where
  "py_num i = enat (nat i)"

subsection \<open>Lists and strings\<close>

text \<open>\<^verbatim>\<open>lengths[0]\<close> and \<^verbatim>\<open>max(lengths)\<close>: both raise on the empty list.\<close>

definition index0 :: "'a list \<Rightarrow> error + 'a" where
  "index0 xs = (case xs of [] \<Rightarrow> Inl IndexError | x # _ \<Rightarrow> Inr x)"

definition py_max :: "int list \<Rightarrow> error + int" where
  "py_max xs = (case xs of [] \<Rightarrow> Inl ValueError | x # ys \<Rightarrow> Inr (fold max ys x))"

text \<open>\<^verbatim>\<open>str(c)\<close> for an int: its decimal digits, with a minus sign when negative.\<close>

fun digits :: "nat \<Rightarrow> string" where
  "digits n =
     (if n < 10 then [char_of (48 + n)]
      else digits (n div 10) @ [char_of (48 + n mod 10)])"

declare digits.simps [simp del]

definition str_int :: "int \<Rightarrow> string" where
  "str_int i = (if i < 0 then CHR ''-'' # digits (nat (- i)) else digits (nat i))"

text \<open>The baht sign U+0E3F of the labels, as its three UTF-8 bytes.\<close>

definition baht :: string where
  "baht = [CHR 0xE0, CHR 0xB8, CHR 0xBF]"

section \<open>calculate\_yearly\_savings\<close>

text \<open>
  The first loop, \<^verbatim>\<open>for i in range(num_cycles)\<close>, appends one length per index; the
  indices of \<^verbatim>\<open>range(num_cycles)\<close> are \<open>[0..num_cycles - 1]\<close>, none when
  \<open>num_cycles \<le> 0\<close>.
\<close>

fun lengths_loop :: "int \<Rightarrow> int \<Rightarrow> int list \<Rightarrow> int list \<Rightarrow> int list" where
  "lengths_loop base_length remainder [] lengths = lengths"
| "lengths_loop base_length remainder (i # is) lengths =
     lengths_loop base_length remainder is
       (if i < remainder then lengths @ [base_length + 1] else lengths @ [base_length])"

text \<open>The second loop adds \<^verbatim>\<open>(lgth * (lgth + 1)) / 2\<close> to \<^verbatim>\<open>grand_total\<close> per cycle.\<close>

definition cycle_sum :: "int \<Rightarrow> error + enat" where
  "cycle_sum lgth = true_div2 (lgth * (lgth + 1))"

fun savings_loop :: "int list \<Rightarrow> enat \<Rightarrow> error + enat" where
  "savings_loop [] grand_total = Inr grand_total"
| "savings_loop (lgth # ls) grand_total =
     (case cycle_sum lgth of
        Inl e \<Rightarrow> Inl e
      | Inr s \<Rightarrow> savings_loop ls (float_add grand_total s))"

definition calculate_yearly_savings :: "int \<Rightarrow> int \<Rightarrow> error + (enat \<times> int list)" where
  "calculate_yearly_savings num_cycles year_days =
     (case py_floordiv year_days num_cycles of
        Inl e \<Rightarrow> Inl e
      | Inr base_length \<Rightarrow>
          (case py_mod year_days num_cycles of
             Inl e \<Rightarrow> Inl e
           | Inr remainder \<Rightarrow>
               (let lengths = lengths_loop base_length remainder [0..num_cycles - 1] []
                in case savings_loop lengths 0 of
                     Inl e \<Rightarrow> Inl e
                   | Inr grand_total \<Rightarrow> Inr (grand_total, lengths))))"

section \<open>generate\_comparison\_data\<close>

text \<open>
  One row of the table. The fields \<^verbatim>\<open>AvgDaysPerCycle\<close> (\<^verbatim>\<open>year_days / c\<close>) and \<^verbatim>\<open>Desc\<close>
  (a text built from \<^verbatim>\<open>lengths[0]\<close> or \<^verbatim>\<open>int(np.mean(lengths))\<close>) are for display and
  are not modelled; the read of \<^verbatim>\<open>lengths[0]\<close> stays in the model because it raises on
  an empty list.
\<close>

record strategy =
  CyclesPerYear :: int
  Label :: string
  TotalSavings :: enat
  TotalCouple :: enat
  MaxDailyAmount :: int

definition cycle_labels :: "int \<rightharpoonup> string" where
  "cycle_labels =
     [1 \<mapsto> ''Yearly (1)'',
      2 \<mapsto> ''Semi-Annual (2)'',
      4 \<mapsto> ''Quarterly (4)'',
      6 \<mapsto> ''Bi-Monthly (6)'',
      12 \<mapsto> ''Monthly (12)'',
      24 \<mapsto> ''Semi-Monthly (24)'',
      26 \<mapsto> ''Bi-Weekly (26)'',
      52 \<mapsto> ''Weekly (52)'',
      365 \<mapsto> ''Daily (365)'']"

text \<open>The body of \<^verbatim>\<open>for c in target_cycles\<close>: the record appended for \<open>c\<close>, or the error raised.\<close>

definition cycle_record :: "int \<Rightarrow> int \<Rightarrow> error + strategy" where
  "cycle_record c year_days =
     (case calculate_yearly_savings c year_days of
        Inl e \<Rightarrow> Inl e
      | Inr (total_savings, lengths) \<Rightarrow>
          (case index0 lengths of
             Inl e \<Rightarrow> Inl e
           | Inr first \<Rightarrow>
               (case py_max lengths of
                  Inl e \<Rightarrow> Inl e
                | Inr m \<Rightarrow>
                    Inr \<lparr>CyclesPerYear = c,
                         Label = (case cycle_labels c of Some l \<Rightarrow> l | None \<Rightarrow> str_int c),
                         TotalSavings = total_savings,
                         TotalCouple = float_mul total_savings 2,
                         MaxDailyAmount = m\<rparr>)))"

fun cycles_loop :: "int list \<Rightarrow> int \<Rightarrow> strategy list \<Rightarrow> error + strategy list" where
  "cycles_loop [] year_days data = Inr data"
| "cycles_loop (c # cs) year_days data =
     (case cycle_record c year_days of
        Inl e \<Rightarrow> Inl e
      | Inr r \<Rightarrow> cycles_loop cs year_days (data @ [r]))"

text \<open>The twelve alternative strategies, with the source's local variables.\<close>

definition fixed_daily :: int where
  "fixed_daily = 183"

definition weeks :: int where
  "weeks = 52"

definition week_amounts :: "int list" where
  "week_amounts = map (\<lambda>i. 50 * i) [1..weeks]"

definition w_total :: int where
  "w_total = sum_list week_amounts"

definition ladder_week_total :: int where
  "ladder_week_total = sum_list (map (\<lambda>i. 50 * i) [1..7])"

definition ladder_year_total :: int where
  "ladder_year_total = ladder_week_total * 52"

definition payday_amount :: int where
  "payday_amount = 3000"

definition payday_total :: int where
  "payday_total = payday_amount * 24"

definition weekday_amt :: int where
  "weekday_amt = 300"

definition weekday_total :: int where
  "weekday_total = (weekday_amt * 5) * 52"

definition agg_ladder_week :: int where
  "agg_ladder_week = sum_list (map (\<lambda>i. 100 * i) [1..7])"

definition agg_ladder_total :: int where
  "agg_ladder_total = agg_ladder_week * 52"

definition coffee_total :: int where
  "coffee_total = 60 * 365"

definition binge_total :: int where
  "binge_total = 2000 * 52"

definition date_match_total :: int where
  "date_match_total = (496 * 7 + 465 * 4 + 406) * 10"

definition odd_even_total :: int where
  "odd_even_total = (183 * 50) + (182 * 500)"

definition escalator_total :: int where
  "escalator_total = 750 * 52"

definition custom :: "string \<Rightarrow> int \<Rightarrow> int \<Rightarrow> int \<Rightarrow> strategy" where
  "custom label savings couple peak =
     \<lparr>CyclesPerYear = 0, Label = label, TotalSavings = py_num savings,
      TotalCouple = py_num couple, MaxDailyAmount = peak\<rparr>"

definition alternative_strategies :: "strategy list" where
  "alternative_strategies =
     [custom (''Fixed Daily (183'' @ baht @ '')'') (fixed_daily * 365)
        ((fixed_daily * 365) * 2) fixed_daily,
      custom ''52-Week Challenge (x50)'' w_total (w_total * 2) 2600,
      custom ''Weekday Ladder'' ladder_year_total (ladder_year_total * 2) 350,
      custom ''Reverse 52-Week'' w_total (w_total * 2) 2600,
      custom ''Payday Sync (1st&16th)'' payday_total (payday_total * 2) payday_amount,
      custom ''No-Spend Weekends'' weekday_total (weekday_total * 2) weekday_amt,
      custom ''Aggressive Ladder'' agg_ladder_total (agg_ladder_total * 2) 700,
      custom (''Coffee Skip (60'' @ baht @ '')'') coffee_total (coffee_total * 2) 60,
      custom ''Weekend Binge'' binge_total (binge_total * 2) 1000,
      custom ''Date Match (x10)'' date_match_total (date_match_total * 2) 310,
      custom ''Odd/Even Smasher'' odd_even_total (odd_even_total * 2) 500,
      custom ''Workday Escalator'' escalator_total (escalator_total * 2) 250]"

text \<open>
  The list \<^verbatim>\<open>data\<close> before it is sorted: the cycle records in the order of
  \<^verbatim>\<open>target_cycles\<close>, then the alternative strategies.
\<close>

definition comparison_rows :: "int list \<Rightarrow> int \<Rightarrow> error + strategy list" where
  "comparison_rows target_cycles year_days =
     (case cycles_loop target_cycles year_days [] of
        Inl e \<Rightarrow> Inl e
      | Inr data \<Rightarrow> Inr (data @ alternative_strategies))"

text \<open>
  \<^verbatim>\<open>df.sort_values(by='TotalSavings', ascending=False)\<close> is pandas, not code of this
  repository, and is called with its default \<^verbatim>\<open>kind='quicksort'\<close>, which pandas
  documents as not stable. It is a parameter of the model, applied to the column and the
  direction that line 247 passes. \<open>sort_values_contract\<close> is what pandas promises of it
  for any column and either direction: the rows are kept, and they come out in ascending
  or in descending order of the column. \<open>sort_values_desc\<close> is that promise for the
  one call of the code.
\<close>

type_synonym sorter = "(strategy \<Rightarrow> enat) \<Rightarrow> bool \<Rightarrow> strategy list \<Rightarrow> strategy list"

definition descending :: "strategy list \<Rightarrow> bool" where
  "descending rows = sorted_wrt (\<lambda>a b. TotalSavings b \<le> TotalSavings a) rows"

definition sort_values_contract :: "sorter \<Rightarrow> bool" where
  "sort_values_contract sort_values \<longleftrightarrow>
     (\<forall>column ascending rows.
        mset (sort_values column ascending rows) = mset rows \<and>
        sorted (map column (if ascending then sort_values column ascending rows
                            else rev (sort_values column ascending rows))))"

definition sort_values_desc :: "sorter \<Rightarrow> bool" where
  "sort_values_desc sort_values \<longleftrightarrow>
     (\<forall>rows. mset (sort_values TotalSavings False rows) = mset rows \<and>
             descending (sort_values TotalSavings False rows))"

definition generate_comparison_data ::
  "sorter \<Rightarrow> int list \<Rightarrow> int \<Rightarrow> error + strategy list" where
  "generate_comparison_data sort_values target_cycles year_days =
     (case comparison_rows target_cycles year_days of
        Inl e \<Rightarrow> Inl e
      | Inr data \<Rightarrow> Inr (sort_values TotalSavings False data))"

text \<open>
  Two sorts that pandas' promise allows. \<open>stable_sort\<close> keeps rows of equal value in
  their order of insertion (\<^verbatim>\<open>kind='stable'\<close>). \<open>unstable_sort\<close> does not: among rows
  of equal value, a descending sort puts first those of larger \<^verbatim>\<open>CyclesPerYear\<close> and,
  where that is equal too, those inserted later.
\<close>

definition stable_sort :: sorter where
  "stable_sort column ascending rows =
     (if ascending then sort_key column rows else rev (sort_key column (rev rows)))"

definition unstable_sort :: sorter where
  "unstable_sort column ascending rows =
     (if ascending then sort_key column (sort_key CyclesPerYear rows)
      else rev (sort_key column (sort_key CyclesPerYear rows)))"

section \<open>Notions used to state the properties\<close>

text \<open>
  The lengths that \<^verbatim>\<open>calculate_yearly_savings\<close> builds (lines 18 to 26) for a divisor
  that is not zero.
\<close>

definition cycle_lengths :: "int \<Rightarrow> int \<Rightarrow> int list" where
  "cycle_lengths num_cycles year_days =
     lengths_loop (year_days div num_cycles) (year_days mod num_cycles) [0..num_cycles - 1] []"

text \<open>
  The specification's valuation, in exact arithmetic: a cycle of length \<open>L\<close> costs
  \<open>L * (L + 1) / 2\<close>, and the grand total is the sum over the cycles.
\<close>

definition spec_cycle_sum :: "int \<Rightarrow> nat" where
  "spec_cycle_sum l = nat (l * (l + 1)) div 2"

definition spec_grand_total :: "int list \<Rightarrow> nat" where
  "spec_grand_total lengths = sum_list (map spec_cycle_sum lengths)"

text \<open>
  The natural numbers that binary64 holds exactly, and the values a float of this
  program can have.
\<close>

definition representable :: "nat \<Rightarrow> bool" where
  "representable n \<longleftrightarrow> n < 2 ^ 53 \<or> 2 ^ (bit_length n - 53) dvd n"

definition is_float :: "enat \<Rightarrow> bool" where
  "is_float x = (case x of enat n \<Rightarrow> representable n \<and> n < 2 ^ 1024 | \<infinity> \<Rightarrow> True)"

text \<open>
  Stability of the sort, as the specification words it: for every value of
  \<^verbatim>\<open>TotalSavings\<close>, the rows with that value are in the table in their order of insertion.
\<close>

definition keeps_tie_order :: "strategy list \<Rightarrow> strategy list \<Rightarrow> bool" where
  "keeps_tie_order data table \<longleftrightarrow>
     (\<forall>t. filter (\<lambda>r. TotalSavings r = t) table = filter (\<lambda>r. TotalSavings r = t) data)"

section \<open>Rounding to binary64\<close>

lemma bit_length_0: "bit_length 0 = 0"
  by (simp add: bit_length.simps)

lemma bit_length_pos: "0 < n \<Longrightarrow> bit_length n = Suc (bit_length (n div 2))"
  by (subst bit_length.simps) simp

lemma bit_length_bounds:
  "0 < n \<Longrightarrow> 2 ^ (bit_length n - 1) \<le> n \<and> n < 2 ^ bit_length n"
proof (induction n rule: bit_length.induct)
  case (1 n)
  show ?case
  proof (cases "n div 2 = 0")
    case True
    with "1.prems" have "n = 1" by (simp add: div_eq_0_iff)
    then show ?thesis by (simp add: bit_length_pos bit_length_0)
  next
    case False
    then have pos: "0 < n div 2" by simp
    from "1.IH" "1.prems" pos
    have IH: "2 ^ (bit_length (n div 2) - 1) \<le> n div 2 \<and> n div 2 < 2 ^ bit_length (n div 2)"
      by simp
    have bl: "bit_length n = Suc (bit_length (n div 2))"
      using "1.prems" by (rule bit_length_pos)
    obtain k where k: "bit_length (n div 2) = Suc k"
      using bit_length_pos [OF pos] by blast
    from IH k have "2 * 2 ^ k \<le> 2 * (n div 2)" and "2 * (n div 2) + 2 \<le> 2 * 2 ^ Suc k"
      by simp_all
    then show ?thesis using bl k by simp linarith
  qed
qed

lemma pow2_less_D: "(2::nat) ^ a < 2 ^ b \<Longrightarrow> a < b"
  by (rule power_less_imp_less_exp [of 2]) simp_all

lemma pow2_pos: "(2::nat) ^ k \<le> n \<Longrightarrow> 0 < n"
  by (cases "n = 0") simp_all

lemma bit_length_eq:
  assumes "2 ^ k \<le> n" and "n < 2 ^ Suc k"
  shows "bit_length n = Suc k"
proof -
  have pos: "0 < n" using assms(1) by (rule pow2_pos)
  from bit_length_bounds [OF pos]
  have lo: "(2::nat) ^ (bit_length n - 1) \<le> n" and hi: "n < (2::nat) ^ bit_length n" by simp_all
  from lo assms(2) have "(2::nat) ^ (bit_length n - 1) < 2 ^ Suc k" by linarith
  then have a: "bit_length n - 1 < Suc k" by (rule pow2_less_D)
  from hi assms(1) have "(2::nat) ^ k < 2 ^ bit_length n" by linarith
  then have b: "k < bit_length n" by (rule pow2_less_D)
  from a b show ?thesis by linarith
qed

lemma bit_length_mono: "m \<le> n \<Longrightarrow> bit_length m \<le> bit_length n"
proof (cases "m = 0")
  case True
  then show ?thesis by (simp add: bit_length_0)
next
  case False
  assume mn: "m \<le> n"
  from False have mp: "0 < m" by simp
  with mn have np: "0 < n" by simp
  from bit_length_bounds [OF mp] bit_length_bounds [OF np] mn
  have "(2::nat) ^ (bit_length m - 1) < 2 ^ bit_length n" by linarith
  then have "bit_length m - 1 < bit_length n" by (rule pow2_less_D)
  then show ?thesis by linarith
qed

lemma bit_length_ge54: "2 ^ 53 \<le> n \<Longrightarrow> 54 \<le> bit_length n"
proof -
  assume a: "2 ^ 53 \<le> n"
  then have np: "0 < n" by (rule pow2_pos)
  from bit_length_bounds [OF np] a have "(2::nat) ^ 53 < 2 ^ bit_length n" by linarith
  then have "53 < bit_length n" by (rule pow2_less_D)
  then show ?thesis by simp
qed

lemma float_round_small: "n < 2 ^ 53 \<Longrightarrow> float_round n = n"
  by (simp add: float_round_def)

lemma float_round_big:
  "2 ^ 53 \<le> n \<Longrightarrow>
   float_round n =
     (if 2 ^ (bit_length n - 53 - 1) < n mod 2 ^ (bit_length n - 53) \<or>
         (n mod 2 ^ (bit_length n - 53) = 2 ^ (bit_length n - 53 - 1) \<and>
          odd (n div 2 ^ (bit_length n - 53)))
      then n div 2 ^ (bit_length n - 53) + 1 else n div 2 ^ (bit_length n - 53)) *
     2 ^ (bit_length n - 53)"
  by (simp add: float_round_def Let_def)

lemma big_significand:
  assumes big: "2 ^ 53 \<le> n"
  shows "2 ^ 52 \<le> n div 2 ^ (bit_length n - 53)"
    and "n div 2 ^ (bit_length n - 53) < 2 ^ 53"
proof -
  define e where "e = bit_length n - 53"
  have bl: "bit_length n = 53 + e"
    using bit_length_ge54 [OF big] by (simp add: e_def)
  have np: "0 < n" using big by (rule pow2_pos)
  from bit_length_bounds [OF np] bl
  have lo: "2 ^ (52 + e) \<le> n" and hi: "n < 2 ^ (53 + e)" by simp_all
  have "(2::nat) ^ (52 + e) div 2 ^ e \<le> n div 2 ^ e"
    using lo by (rule div_le_mono)
  then show "2 ^ 52 \<le> n div 2 ^ (bit_length n - 53)"
    by (simp add: power_add e_def)
  have "n < 2 ^ 53 * 2 ^ e" using hi by (simp add: power_add)
  then have "n div 2 ^ e < 2 ^ 53" by (rule less_mult_imp_div_less)
  then show "n div 2 ^ (bit_length n - 53) < 2 ^ 53" by (simp add: e_def)
qed

lemma float_round_between:
  assumes big: "2 ^ 53 \<le> n"
  shows "n div 2 ^ (bit_length n - 53) * 2 ^ (bit_length n - 53) \<le> float_round n"
    and "float_round n \<le> (n div 2 ^ (bit_length n - 53) + 1) * 2 ^ (bit_length n - 53)"
  by (simp_all add: float_round_big [OF big])

lemma float_round_representable: "representable n \<Longrightarrow> float_round n = n"
proof (cases "n < 2 ^ 53")
  case True
  then show ?thesis by (rule float_round_small)
next
  case False
  assume "representable n"
  with False have d: "2 ^ (bit_length n - 53) dvd n" by (simp add: representable_def)
  from False have big: "2 ^ 53 \<le> n" by simp
  from d have "n mod 2 ^ (bit_length n - 53) = 0" by simp
  then show ?thesis using d by (simp add: float_round_big [OF big])
qed

lemma representable_scaled:
  assumes lo: "2 ^ 52 \<le> m" and hi: "m \<le> 2 ^ 53"
  shows "representable (m * 2 ^ e)"
proof (cases "m = 2 ^ 53")
  case True
  have "bit_length ((2::nat) ^ (53 + e)) = Suc (53 + e)"
    by (rule bit_length_eq) simp_all
  then have "bit_length (m * 2 ^ e) - 53 = Suc e"
    using True by (simp add: power_add)
  moreover have "(2::nat) ^ Suc e dvd 2 ^ (53 + e)"
    by (rule le_imp_power_dvd) simp
  ultimately show ?thesis using True by (simp add: representable_def power_add)
next
  case False
  with hi have less: "m < 2 ^ 53" by simp
  have a: "2 ^ (52 + e) \<le> m * 2 ^ e"
    using lo by (simp add: power_add)
  have b: "m * 2 ^ e < 2 ^ Suc (52 + e)"
    using less by (simp add: power_add)
  have "bit_length (m * 2 ^ e) = Suc (52 + e)"
    using a b by (rule bit_length_eq)
  then have "bit_length (m * 2 ^ e) - 53 = e" by simp
  then show ?thesis by (simp add: representable_def)
qed

lemma representable_float_round: "representable (float_round n)"
proof (cases "n < 2 ^ 53")
  case True
  then show ?thesis by (simp add: float_round_small representable_def)
next
  case False
  then have big: "2 ^ 53 \<le> n" by simp
  note q = big_significand [OF big]
  show ?thesis
    unfolding float_round_big [OF big]
    by (rule representable_scaled) (use q in \<open>auto\<close>)
qed

lemma float_round_ge_pow:
  assumes big: "2 ^ 53 \<le> n"
  shows "2 ^ (bit_length n - 1) \<le> float_round n"
proof -
  define e where "e = bit_length n - 53"
  have bl: "bit_length n - 1 = 52 + e"
    using bit_length_ge54 [OF big] by (simp add: e_def)
  have "(2::nat) ^ (bit_length n - 1) = 2 ^ 52 * 2 ^ e"
    by (simp only: bl power_add)
  also have "\<dots> \<le> n div 2 ^ e * 2 ^ e"
    using big_significand(1) [OF big] by (simp add: e_def)
  also have "\<dots> \<le> float_round n"
    using float_round_between(1) [OF big] by (simp add: e_def)
  finally show ?thesis .
qed

lemma float_round_le_pow:
  assumes big: "2 ^ 53 \<le> n"
  shows "float_round n \<le> 2 ^ bit_length n"
proof -
  define e where "e = bit_length n - 53"
  have bl: "bit_length n = 53 + e"
    using bit_length_ge54 [OF big] by (simp add: e_def)
  have "float_round n \<le> (n div 2 ^ e + 1) * 2 ^ e"
    using float_round_between(2) [OF big] by (simp add: e_def)
  also have "\<dots> \<le> 2 ^ 53 * 2 ^ e"
    using big_significand(2) [OF big] by (simp add: e_def)
  finally show ?thesis by (simp add: bl power_add)
qed

lemma float_round_mono_same:
  assumes big: "2 ^ 53 \<le> m" and mn: "m \<le> n"
    and same: "bit_length m = bit_length n"
  shows "float_round m \<le> float_round n"
proof -
  define e where "e = bit_length n - 53"
  define h :: nat where "h = 2 ^ (e - 1)"
  have bign: "2 ^ 53 \<le> n" using big mn by linarith
  have em: "bit_length m - 53 = e" by (simp add: same e_def)
  have qle: "m div 2 ^ e \<le> n div 2 ^ e" using mn by (rule div_le_mono)
  show ?thesis
  proof (cases "m div 2 ^ e = n div 2 ^ e")
    case True
    have "m mod 2 ^ e \<le> n mod 2 ^ e"
    proof -
      have "m mod 2 ^ e = m - m div 2 ^ e * 2 ^ e"
        by (rule minus_div_mult_eq_mod [symmetric])
      moreover have "n mod 2 ^ e = n - n div 2 ^ e * 2 ^ e"
        by (rule minus_div_mult_eq_mod [symmetric])
      ultimately show ?thesis using mn True by (simp add: diff_le_mono)
    qed
    then show ?thesis
      using True
      by (simp add: float_round_big [OF big] float_round_big [OF bign] em e_def [symmetric])
  next
    case False
    with qle have "m div 2 ^ e + 1 \<le> n div 2 ^ e" by simp
    then have "(m div 2 ^ e + 1) * 2 ^ e \<le> n div 2 ^ e * 2 ^ e"
      by (rule mult_le_mono1)
    moreover have "float_round m \<le> (m div 2 ^ e + 1) * 2 ^ e"
      using float_round_between(2) [OF big] by (simp add: em)
    moreover have "n div 2 ^ e * 2 ^ e \<le> float_round n"
      using float_round_between(1) [OF bign] by (simp add: e_def)
    ultimately show ?thesis by linarith
  qed
qed

lemma float_round_mono: "m \<le> n \<Longrightarrow> float_round m \<le> float_round n"
proof -
  assume mn: "m \<le> n"
  show ?thesis
  proof (cases "n < 2 ^ 53")
    case True
    with mn show ?thesis by (simp add: float_round_small)
  next
    case False
    then have bign: "2 ^ 53 \<le> n" by simp
    show ?thesis
    proof (cases "m < 2 ^ 53")
      case True
      have "(2::nat) ^ 53 \<le> 2 ^ (bit_length n - 1)"
        using bit_length_ge54 [OF bign] by (intro power_increasing) simp_all
      also have "\<dots> \<le> float_round n" using bign by (rule float_round_ge_pow)
      finally show ?thesis using True by (simp add: float_round_small)
    next
      case False
      then have bigm: "2 ^ 53 \<le> m" by simp
      show ?thesis
      proof (cases "bit_length m = bit_length n")
        case True
        with bigm mn show ?thesis by (rule float_round_mono_same)
      next
        case False
        with bit_length_mono [OF mn] have "bit_length m \<le> bit_length n - 1" by simp
        then have "(2::nat) ^ bit_length m \<le> 2 ^ (bit_length n - 1)"
          by (intro power_increasing) simp_all
        with float_round_le_pow [OF bigm] float_round_ge_pow [OF bign]
        show ?thesis by linarith
      qed
    qed
  qed
qed

section \<open>Float operations and the valuation loop\<close>

lemma to_float_small: "n < 2 ^ 53 \<Longrightarrow> to_float n = enat n"
proof -
  assume a: "n < 2 ^ 53"
  have "(2::nat) ^ 53 < 2 ^ 1024" by (rule power_strict_increasing) simp_all
  with a have "n < 2 ^ 1024" by (rule less_trans)
  with a show ?thesis by (simp only: to_float_def float_round_small if_True)
qed

lemma is_float_to_float: "is_float (to_float n)"
  by (simp add: to_float_def is_float_def representable_float_round)

lemma is_float_0: "is_float 0"
  by (simp add: is_float_def representable_def zero_enat_def)

lemma to_float_mono: "m \<le> n \<Longrightarrow> to_float m \<le> to_float n"
  using float_round_mono [of m n] by (auto simp: to_float_def)

lemma to_float_fix: "is_float (enat n) \<Longrightarrow> to_float n = enat n"
  by (simp add: is_float_def to_float_def float_round_representable)

lemma float_add_enat: "float_add (enat a) (enat b) = to_float (a + b)"
  by (simp add: float_add_def)

lemma float_add_infinity: "float_add \<infinity> y = \<infinity>" "float_add x \<infinity> = \<infinity>"
  by (simp_all add: float_add_def)

lemma is_float_infinity: "is_float \<infinity>"
  by (simp add: is_float_def)

lemma is_float_float_add: "is_float (float_add x y)"
  by (cases x; cases y)
    (simp_all add: float_add_enat float_add_infinity is_float_to_float is_float_infinity)

lemma float_add_ge_left: "is_float x \<Longrightarrow> x \<le> float_add x y"
proof (cases x; cases y)
  fix a b assume "is_float x" and x: "x = enat a" and y: "y = enat b"
  then have "enat a = to_float a" by (simp add: to_float_fix)
  also have "\<dots> \<le> to_float (a + b)" by (rule to_float_mono) simp
  finally show ?thesis by (simp add: x y float_add_enat)
qed (simp_all add: float_add_infinity)

lemma float_add_ge_right: "is_float y \<Longrightarrow> y \<le> float_add x y"
proof (cases x; cases y)
  fix a b assume "is_float y" and x: "x = enat a" and y: "y = enat b"
  then have "enat b = to_float b" by (simp add: to_float_fix)
  also have "\<dots> \<le> to_float (a + b)" by (rule to_float_mono) simp
  finally show ?thesis by (simp add: x y float_add_enat)
qed (simp_all add: float_add_infinity)

lemma float_add_0: "is_float x \<Longrightarrow> float_add x 0 = x"
  by (cases x) (simp_all add: zero_enat_def float_add_enat float_add_infinity to_float_fix)

lemma float_add_small: "a + b < 2 ^ 53 \<Longrightarrow> float_add (enat a) (enat b) = enat (a + b)"
  by (simp add: float_add_enat to_float_small)

lemma cycle_sum_eq:
  "cycle_sum l =
     (if float_round (spec_cycle_sum l) < 2 ^ 1024
      then Inr (enat (float_round (spec_cycle_sum l))) else Inl OverflowError)"
  by (simp add: cycle_sum_def true_div2_def spec_cycle_sum_def)

lemma cycle_sum_to_float: "cycle_sum l = Inr s \<Longrightarrow> s = to_float (spec_cycle_sum l)"
  by (simp add: cycle_sum_eq to_float_def split: if_splits)

lemma cycle_sum_is_float: "cycle_sum l = Inr s \<Longrightarrow> is_float s"
  by (drule cycle_sum_to_float) (simp add: is_float_to_float)

lemma cycle_sum_exact:
  "spec_cycle_sum l < 2 ^ 53 \<Longrightarrow> cycle_sum l = Inr (enat (spec_cycle_sum l))"
proof -
  assume a: "spec_cycle_sum l < 2 ^ 53"
  have "(2::nat) ^ 53 < 2 ^ 1024" by (rule power_strict_increasing) simp_all
  with a have "spec_cycle_sum l < 2 ^ 1024" by (rule less_trans)
  with a show ?thesis by (simp only: cycle_sum_eq float_round_small if_True)
qed

lemma spec_cycle_sum_nat: "0 \<le> l \<Longrightarrow> spec_cycle_sum l = nat l * (nat l + 1) div 2"
  by (simp add: spec_cycle_sum_def nat_mult_distrib nat_add_distrib)

lemma spec_cycle_sum_ge: "nat l \<le> spec_cycle_sum l"
proof (cases "0 \<le> l")
  case True
  define a where "a = nat l"
  define p where "p = a * (a + 1)"
  have "2 * a \<le> p" by (cases a) (simp_all add: p_def)
  then have "a \<le> p div 2" by linarith
  then show ?thesis using True by (simp only: spec_cycle_sum_nat a_def p_def)
next
  case False
  then show ?thesis by simp
qed

lemma spec_cycle_sum_ge_double:
  assumes "3 \<le> l"
  shows "2 * nat l \<le> spec_cycle_sum l"
proof -
  define a where "a = nat l"
  define p where "p = a * (a + 1)"
  have a3: "3 \<le> a" using assms by (simp add: a_def)
  then have "4 * a \<le> a * (a + 1)" by simp
  then have "4 * a \<le> p" by (simp only: p_def)
  then have "2 * a \<le> p div 2" by linarith
  moreover have "0 \<le> l" using assms by simp
  ultimately show ?thesis by (simp only: spec_cycle_sum_nat a_def p_def)
qed

lemma representable_pow2: "representable (2 ^ k)"
proof (cases "k < 53")
  case True
  then have "(2::nat) ^ k < 2 ^ 53" by (intro power_strict_increasing) simp_all
  then show ?thesis by (simp only: representable_def simp_thms)
next
  case False
  then have k: "k = 52 + (k - 52)" by simp
  have "representable (2 ^ 52 * 2 ^ (k - 52))"
    by (rule representable_scaled) simp_all
  then show ?thesis by (subst k) (simp only: power_add)
qed

lemma to_float_ge_pow2: "a \<le> 2 ^ k \<Longrightarrow> enat a \<le> to_float (2 ^ k)"
  by (simp add: to_float_def float_round_representable [OF representable_pow2])

lemma to_float_spec_cycle_sum_ge: "enat (nat l) \<le> to_float (spec_cycle_sum l)"
proof (cases "nat l < 2 ^ 53")
  case True
  then have "enat (nat l) = to_float (nat l)" by (simp add: to_float_small)
  also have "\<dots> \<le> to_float (spec_cycle_sum l)"
    by (rule to_float_mono) (rule spec_cycle_sum_ge)
  finally show ?thesis .
next
  case False
  then have big: "2 ^ 53 \<le> nat l" by simp
  then have pos: "0 < nat l" by (rule pow2_pos)
  have l3: "3 \<le> l"
  proof -
    have "(3::nat) \<le> 2 ^ 53" by simp
    from this big have "3 \<le> nat l" by (rule le_trans)
    then show ?thesis by simp
  qed
  define k where "k = bit_length (nat l)"
  have k1: "1 \<le> k" using bit_length_ge54 [OF big] by (simp add: k_def)
  from bit_length_bounds [OF pos]
  have lo: "2 ^ (k - 1) \<le> nat l" and hi: "nat l < 2 ^ k" by (simp_all add: k_def)
  have "(2::nat) ^ k = 2 * 2 ^ (k - 1)" using k1 by (cases k) simp_all
  also have "\<dots> \<le> 2 * nat l" using lo by simp
  also have "\<dots> \<le> spec_cycle_sum l" using l3 by (rule spec_cycle_sum_ge_double)
  finally have "to_float (2 ^ k) \<le> to_float (spec_cycle_sum l)" by (rule to_float_mono)
  moreover have "enat (nat l) \<le> to_float (2 ^ k)"
    using hi by (intro to_float_ge_pow2) simp
  ultimately show ?thesis by (rule order_trans [rotated])
qed

lemma cycle_sum_ge: "cycle_sum l = Inr s \<Longrightarrow> enat (nat l) \<le> s"
  by (drule cycle_sum_to_float) (simp add: to_float_spec_cycle_sum_ge)

lemma savings_loop_exact:
  "acc + spec_grand_total ls < 2 ^ 53 \<Longrightarrow>
   savings_loop ls (enat acc) = Inr (enat (acc + spec_grand_total ls))"
proof (induction ls arbitrary: acc)
  case Nil
  then show ?case by (simp add: spec_grand_total_def)
next
  case (Cons l ls)
  from Cons.prems have small: "spec_cycle_sum l < 2 ^ 53"
    and step: "acc + spec_cycle_sum l < 2 ^ 53"
    and rest: "(acc + spec_cycle_sum l) + spec_grand_total ls < 2 ^ 53"
    by (simp_all add: spec_grand_total_def)
  from Cons.IH [OF rest] show ?case
    by (simp add: cycle_sum_exact [OF small] float_add_small [OF step] spec_grand_total_def
        add.assoc)
qed

lemma savings_loop_is_float:
  "is_float acc \<Longrightarrow> savings_loop ls acc = Inr t \<Longrightarrow> is_float t"
proof (induction ls arbitrary: acc)
  case Nil
  then show ?case by simp
next
  case (Cons l ls)
  from Cons.prems(2) obtain s where "savings_loop ls (float_add acc s) = Inr t"
    by (auto split: sum.splits)
  with is_float_float_add show ?case by (rule Cons.IH)
qed

lemma savings_loop_ge_acc:
  "is_float acc \<Longrightarrow> savings_loop ls acc = Inr t \<Longrightarrow> acc \<le> t"
proof (induction ls arbitrary: acc)
  case Nil
  then show ?case by simp
next
  case (Cons l ls)
  from Cons.prems(2) obtain s where s: "cycle_sum l = Inr s"
    and rest: "savings_loop ls (float_add acc s) = Inr t"
    by (auto split: sum.splits)
  have "acc \<le> float_add acc s" using Cons.prems(1) by (rule float_add_ge_left)
  also have "\<dots> \<le> t" using is_float_float_add rest by (rule Cons.IH)
  finally show ?case .
qed

lemma savings_loop_ge_elem:
  "savings_loop ls acc = Inr t \<Longrightarrow> l \<in> set ls \<Longrightarrow> enat (nat l) \<le> t"
proof (induction ls arbitrary: acc)
  case Nil
  then show ?case by simp
next
  case (Cons x ls)
  from Cons.prems(1) obtain s where s: "cycle_sum x = Inr s"
    and rest: "savings_loop ls (float_add acc s) = Inr t"
    by (auto split: sum.splits)
  show ?case
  proof (cases "l = x")
    case True
    have "enat (nat l) \<le> s" using s True by (simp add: cycle_sum_ge)
    also have "\<dots> \<le> float_add acc s"
      using cycle_sum_is_float [OF s] by (rule float_add_ge_right)
    also have "\<dots> \<le> t" using is_float_float_add rest by (rule savings_loop_ge_acc)
    finally show ?thesis .
  next
    case False
    with Cons.prems(2) have "l \<in> set ls" by simp
    with rest show ?thesis by (rule Cons.IH)
  qed
qed

section \<open>The partition of the year\<close>

lemma lengths_loop_eq:
  "lengths_loop b r is acc = acc @ map (\<lambda>i. if i < r then b + 1 else b) is"
  by (induction "is" arbitrary: acc) simp_all

lemma map_const_replicate: "(\<And>x. x \<in> set xs \<Longrightarrow> f x = k) \<Longrightarrow> map f xs = replicate (length xs) k"
  by (induction xs) simp_all

lemma cycle_lengths_eq:
  assumes c: "1 \<le> c"
  shows "cycle_lengths c y =
    replicate (nat (y mod c)) (y div c + 1) @ replicate (nat (c - y mod c)) (y div c)"
proof -
  define r where "r = y mod c"
  define b where "b = y div c"
  have r0: "0 \<le> r" and rc: "r < c" using c by (simp_all add: r_def)
  have split: "[0..c - 1] = [0..r - 1] @ [r..c - 1]"
    using r0 rc by (intro upto_split1) simp_all
  have a: "map (\<lambda>i. if i < r then b + 1 else b) [0..r - 1] = replicate (nat r) (b + 1)"
    using map_const_replicate [of "[0..r - 1]" "\<lambda>i. if i < r then b + 1 else b" "b + 1"]
    by simp
  have b: "map (\<lambda>i. if i < r then b + 1 else b) [r..c - 1] = replicate (nat (c - r)) b"
    using map_const_replicate [of "[r..c - 1]" "\<lambda>i. if i < r then b + 1 else b" b]
    by simp
  show ?thesis
    unfolding cycle_lengths_def lengths_loop_eq r_def [symmetric] b_def [symmetric]
    by (simp add: split a b)
qed

lemma calculate_yearly_savings_eq:
  "c \<noteq> 0 \<Longrightarrow>
   calculate_yearly_savings c y =
     (case savings_loop (cycle_lengths c y) 0 of
        Inl e \<Rightarrow> Inl e
      | Inr grand_total \<Rightarrow> Inr (grand_total, cycle_lengths c y))"
  unfolding cycle_lengths_def
  by (simp add: calculate_yearly_savings_def py_floordiv_def py_mod_def Let_def)

lemma length_cycle_lengths: "1 \<le> c \<Longrightarrow> length (cycle_lengths c y) = nat c"
proof -
  assume c: "1 \<le> c"
  have "0 \<le> y mod c" and "y mod c < c" using c by simp_all
  then show ?thesis by (simp add: cycle_lengths_eq [OF c] nat_add_distrib [symmetric])
qed

lemma sum_cycle_lengths: "1 \<le> c \<Longrightarrow> sum_list (cycle_lengths c y) = y"
proof -
  assume c: "1 \<le> c"
  have r: "0 \<le> y mod c" "y mod c < c" using c by simp_all
  have "sum_list (cycle_lengths c y) = (y mod c) * (y div c + 1) + (c - y mod c) * (y div c)"
    using r by (simp add: cycle_lengths_eq [OF c] sum_list_replicate)
  also have "\<dots> = c * (y div c) + y mod c" by (simp add: algebra_simps)
  also have "\<dots> = y" by simp
  finally show ?thesis .
qed

lemma set_cycle_lengths:
  assumes c: "1 \<le> c"
  shows "set (cycle_lengths c y) =
    (if y mod c = 0 then {y div c} else {y div c + 1, y div c})"
proof -
  define r where "r = y mod c"
  define b where "b = y div c"
  have r0: "0 \<le> r" and rc: "r < c" using c by (simp_all add: r_def)
  have "cycle_lengths c y = replicate (nat r) (b + 1) @ replicate (nat (c - r)) b"
    using cycle_lengths_eq [OF c] by (simp add: r_def b_def)
  then have "set (cycle_lengths c y) = (if r = 0 then {b} else {b + 1, b})"
    using r0 rc by auto
  then show ?thesis by (simp add: r_def b_def)
qed

lemma py_max_cycle_lengths:
  assumes c: "1 \<le> c"
  shows "py_max (cycle_lengths c y) = Inr (if y mod c = 0 then y div c else y div c + 1)"
proof -
  have ne: "cycle_lengths c y \<noteq> []"
    using length_cycle_lengths [OF c, of y] c by auto
  then obtain x xs where xs: "cycle_lengths c y = x # xs" by (cases "cycle_lengths c y") auto
  have "fold max xs x = Max (set (x # xs))" by (rule Max.set_eq_fold [symmetric])
  also have "\<dots> = (if y mod c = 0 then y div c else y div c + 1)"
    unfolding xs [symmetric] set_cycle_lengths [OF c] by simp
  finally show ?thesis by (simp add: py_max_def xs)
qed

lemma spread_cycle_lengths:
  assumes c: "1 \<le> c"
  shows "Max (set (cycle_lengths c y)) - Min (set (cycle_lengths c y)) \<le> 1"
  unfolding set_cycle_lengths [OF c] by simp

lemma ceil_div_antimono:
  assumes y: "0 \<le> (y::int)" and c1: "1 \<le> c1" and c12: "c1 \<le> c2"
  shows "(if y mod c2 = 0 then y div c2 else y div c2 + 1)
       \<le> (if y mod c1 = 0 then y div c1 else y div c1 + 1)"
proof -
  define k where "k = (if y mod c1 = 0 then y div c1 else y div c1 + 1)"
  have c2: "1 \<le> c2" using c1 c12 by simp
  have k0: "0 \<le> k" using y c1 by (simp add: k_def pos_imp_zdiv_nonneg_iff)
  define q where "q = y div c1"
  define r where "r = y mod c1"
  have "y = q * c1 + r" by (simp add: q_def r_def)
  moreover have "r < c1" using c1 by (simp add: r_def)
  moreover have "k = (if r = 0 then q else q + 1)" by (simp add: k_def q_def r_def)
  ultimately have "y \<le> k * c1"
    by (cases "r = 0") (simp_all add: algebra_simps)
  also have "\<dots> \<le> k * c2" using k0 c12 by (rule mult_left_mono [rotated])
  finally have ykc: "y \<le> k * c2" .
  define q2 where "q2 = y div c2"
  define r2 where "r2 = y mod c2"
  have decomp: "q2 * c2 + r2 = y" by (simp add: q2_def r2_def)
  have r2: "0 \<le> r2" using c2 by (simp add: r2_def)
  have "(if r2 = 0 then q2 else q2 + 1) \<le> k"
  proof (cases "r2 = 0")
    case True
    with decomp ykc have "q2 * c2 \<le> k * c2" by simp
    then have "q2 \<le> k" using c2 by (simp add: mult_le_cancel_right)
    then show ?thesis using True by simp
  next
    case False
    with r2 have "0 < r2" by simp
    with decomp ykc have "q2 * c2 < k * c2" by linarith
    then have "q2 < k" using c2 by (simp add: mult_less_cancel_right)
    then show ?thesis using False by simp
  qed
  then show ?thesis unfolding k_def q2_def r2_def .
qed

lemma spec_cycle_sum_numeral: "spec_cycle_sum (numeral k) = numeral k * (numeral k + 1) div 2"
  by (simp add: spec_cycle_sum_nat)

section \<open>Records of the cycle strategies\<close>

lemma cycle_record_eq:
  assumes c: "1 \<le> c"
  shows "cycle_record c y =
    (case savings_loop (cycle_lengths c y) 0 of
       Inl e \<Rightarrow> Inl e
     | Inr t \<Rightarrow>
         Inr \<lparr>CyclesPerYear = c,
              Label = (case cycle_labels c of Some l \<Rightarrow> l | None \<Rightarrow> str_int c),
              TotalSavings = t,
              TotalCouple = float_mul t 2,
              MaxDailyAmount = (if y mod c = 0 then y div c else y div c + 1)\<rparr>)"
proof -
  from c have nz: "c \<noteq> 0" by simp
  have ne: "cycle_lengths c y \<noteq> []"
    using length_cycle_lengths [OF c, of y] c by auto
  then obtain x xs where xs: "cycle_lengths c y = x # xs"
    by (cases "cycle_lengths c y") auto
  have i: "index0 (cycle_lengths c y) = Inr x" by (simp add: index0_def xs)
  show ?thesis
    by (simp add: cycle_record_def calculate_yearly_savings_eq [OF nz] i
        py_max_cycle_lengths [OF c] split: sum.splits)
qed

lemma cycle_record_zero: "cycle_record 0 y = Inl ZeroDivisionError"
  by (simp add: cycle_record_def calculate_yearly_savings_def py_floordiv_def)

lemma cycle_record_negative: "c < 0 \<Longrightarrow> cycle_record c y = Inl IndexError"
  by (simp add: cycle_record_def calculate_yearly_savings_def py_floordiv_def py_mod_def
      index0_def)

lemma calculate_yearly_savings_negative:
  "c < 0 \<Longrightarrow> calculate_yearly_savings c y = Inr (0, [])"
  by (simp add: calculate_yearly_savings_def py_floordiv_def py_mod_def)

section \<open>Exact totals\<close>

lemma double_spec_cycle_sum: "2 * spec_cycle_sum l = nat (l * (l + 1))"
proof -
  have "0 \<le> l * (l + 1)" by (cases "0 \<le> l") (simp_all add: zero_le_mult_iff)
  then have "even (nat (l * (l + 1)))" by (simp add: even_nat_iff)
  then show ?thesis by (simp add: spec_cycle_sum_def)
qed

lemma spec_cycle_sum_superadd:
  assumes "0 \<le> a" and "0 \<le> b"
  shows "spec_cycle_sum a + spec_cycle_sum b \<le> spec_cycle_sum (a + b)"
proof -
  have "a * (a + 1) + b * (b + 1) \<le> (a + b) * (a + b + 1)"
  proof -
    have "0 \<le> 2 * (a * b)" using assms by simp
    then show ?thesis by (simp add: algebra_simps)
  qed
  moreover have "0 \<le> a * (a + 1)" "0 \<le> b * (b + 1)" using assms by simp_all
  ultimately have "nat (a * (a + 1)) + nat (b * (b + 1)) \<le> nat ((a + b) * (a + b + 1))"
    by linarith
  then have "2 * (spec_cycle_sum a + spec_cycle_sum b) \<le> 2 * spec_cycle_sum (a + b)"
    by (simp only: distrib_left double_spec_cycle_sum)
  then show ?thesis by simp
qed

lemma spec_cycle_sum_0: "spec_cycle_sum 0 = 0"
  by (simp add: spec_cycle_sum_def)

lemma spec_grand_total_le:
  "(\<And>l. l \<in> set ls \<Longrightarrow> 0 \<le> l) \<Longrightarrow> spec_grand_total ls \<le> spec_cycle_sum (sum_list ls)"
proof (induction ls)
  case Nil
  then show ?case by (simp add: spec_grand_total_def)
next
  case (Cons l ls)
  have l0: "0 \<le> l" using Cons.prems by simp
  have s0: "0 \<le> sum_list ls" using Cons.prems by (intro sum_list_nonneg) simp
  have "spec_grand_total (l # ls) = spec_cycle_sum l + spec_grand_total ls"
    by (simp add: spec_grand_total_def)
  also have "\<dots> \<le> spec_cycle_sum l + spec_cycle_sum (sum_list ls)"
    using Cons.IH Cons.prems by simp
  also have "\<dots> \<le> spec_cycle_sum (l + sum_list ls)"
    using l0 s0 by (rule spec_cycle_sum_superadd)
  finally show ?case by simp
qed

lemma cycle_lengths_nonneg:
  assumes c: "1 \<le> c" and y: "0 \<le> y" and l: "l \<in> set (cycle_lengths c y)"
  shows "0 \<le> l"
proof -
  have "0 \<le> y div c" using c y by (simp add: pos_imp_zdiv_nonneg_iff)
  then show ?thesis using l by (auto simp: set_cycle_lengths [OF c] split: if_splits)
qed

lemma spec_grand_total_cycle_lengths_le:
  assumes c: "1 \<le> c" and y: "0 \<le> y"
  shows "spec_grand_total (cycle_lengths c y) \<le> spec_cycle_sum y"
  using spec_grand_total_le [of "cycle_lengths c y"] cycle_lengths_nonneg [OF c y]
  by (simp add: sum_cycle_lengths [OF c])

lemma calculate_yearly_savings_exact:
  assumes c: "c \<noteq> 0" and small: "spec_grand_total (cycle_lengths c y) < 2 ^ 53"
  shows "calculate_yearly_savings c y =
    Inr (enat (spec_grand_total (cycle_lengths c y)), cycle_lengths c y)"
  using savings_loop_exact [of 0 "cycle_lengths c y"] small
  by (simp add: calculate_yearly_savings_eq [OF c] zero_enat_def)

lemma spec_cycle_sum_mono:
  assumes "0 \<le> a" and "a \<le> b"
  shows "spec_cycle_sum a \<le> spec_cycle_sum b"
  using spec_cycle_sum_superadd [of a "b - a"] assms by simp

lemma spec_grand_total_replicate: "spec_grand_total (replicate n l) = n * spec_cycle_sum l"
  by (simp add: spec_grand_total_def sum_list_replicate)

lemma float_add_0_left: "is_float x \<Longrightarrow> float_add 0 x = x"
  by (cases x) (simp_all add: zero_enat_def float_add_enat float_add_infinity to_float_fix)

lemma cycle_sum_single:
  "cycle_sum l = Inr s \<Longrightarrow> savings_loop [l] 0 = Inr s"
  by (simp add: float_add_0_left cycle_sum_is_float)

lemma bit_length_example: "bit_length 9007199456067585 = 54"
proof -
  have "bit_length 9007199456067585 = Suc 53"
    by (rule bit_length_eq) simp_all
  then show ?thesis by simp
qed

lemma float_round_example: "float_round 9007199456067585 = 9007199456067584"
proof -
  have big: "(2::nat) ^ 53 \<le> 9007199456067585" by simp
  show ?thesis
    by (simp add: float_round_big [OF big] bit_length_example)
qed

section \<open>More cycles than days\<close>

lemma savings_loop_append:
  "savings_loop (xs @ ys) acc =
     (case savings_loop xs acc of Inl e \<Rightarrow> Inl e | Inr t \<Rightarrow> savings_loop ys t)"
  by (induction xs arbitrary: acc) (simp_all split: sum.splits)

lemma cycle_sum_0: "cycle_sum 0 = Inr 0"
  using cycle_sum_exact [of 0] by (simp add: spec_cycle_sum_0 zero_enat_def)

lemma cycle_sum_1: "cycle_sum 1 = Inr 1"
  using cycle_sum_exact [of 1] by (simp add: spec_cycle_sum_def one_enat_def)

lemma savings_loop_zeros: "is_float t \<Longrightarrow> savings_loop (replicate k 0) t = Inr t"
  by (induction k) (simp_all add: cycle_sum_0 float_add_0)

lemma float_round_stuck: "float_round 9007199254740993 = 9007199254740992"
proof -
  have big: "(2::nat) ^ 53 \<le> 9007199254740993" by simp
  have "bit_length 9007199254740993 = Suc 53"
    by (rule bit_length_eq) simp_all
  then have "bit_length 9007199254740993 = 54" by simp
  then show ?thesis
    by (simp add: float_round_big [OF big])
qed

lemma float_add_one:
  assumes "a \<le> 2 ^ 53"
  shows "float_add (enat a) 1 = enat (min (a + 1) (2 ^ 53))"
proof -
  have p: "(2::nat) ^ 53 = 9007199254740992" by simp
  consider "a + 1 < 2 ^ 53" | "a + 1 = 2 ^ 53" | "a = 2 ^ 53"
    using assms by linarith
  then show ?thesis
  proof cases
    case 1
    then show ?thesis by (simp add: one_enat_def float_add_small)
  next
    case 2
    have r: "float_round (2 ^ 53) = 2 ^ 53"
      by (rule float_round_representable [OF representable_pow2])
    have "(2::nat) ^ 53 < 2 ^ 1024" by (rule power_strict_increasing) simp_all
    then have "to_float (2 ^ 53) = enat (2 ^ 53)"
      by (simp only: to_float_def r if_True)
    then show ?thesis using 2 by (simp add: one_enat_def float_add_enat)
  next
    case 3
    have "to_float 9007199254740993 = enat 9007199254740992"
      by (simp add: to_float_def float_round_stuck)
    then show ?thesis using 3 by (simp add: one_enat_def float_add_enat)
  qed
qed

lemma savings_loop_ones:
  "a \<le> 2 ^ 53 \<Longrightarrow>
   savings_loop (replicate n 1) (enat a) = Inr (enat (min (a + n) (2 ^ 53)))"
proof (induction n arbitrary: a)
  case 0
  then show ?case by simp
next
  case (Suc n)
  have "min (a + 1) (2 ^ 53) \<le> (2::nat) ^ 53" by simp
  from Suc.IH [OF this] Suc.prems show ?case
    by (simp add: cycle_sum_1 float_add_one min_def)
qed

lemma cycles_loop_Inr:
  "cycles_loop cs y data = Inr out \<longleftrightarrow>
     (\<exists>rs. out = data @ rs \<and> list_all2 (\<lambda>c r. cycle_record c y = Inr r) cs rs)"
proof (induction cs arbitrary: data)
  case Nil
  then show ?case by auto
next
  case (Cons c cs)
  show ?case
  proof (cases "cycle_record c y")
    case (Inl e)
    then show ?thesis by (auto simp: list_all2_Cons1)
  next
    case (Inr r)
    then show ?thesis by (auto simp: Cons.IH list_all2_Cons1)
  qed
qed

lemma cycles_loop_fails:
  "c \<in> set cs \<Longrightarrow> cycle_record c y = Inl e \<Longrightarrow> \<exists>e'. cycles_loop cs y data = Inl e'"
proof (induction cs arbitrary: data)
  case Nil
  then show ?case by simp
next
  case (Cons x cs)
  then show ?case by (cases "cycle_record x y") auto
qed

lemma generate_comparison_data_Inr:
  "generate_comparison_data srt cs y = Inr tbl \<longleftrightarrow>
     (\<exists>rs. list_all2 (\<lambda>c r. cycle_record c y = Inr r) cs rs
        \<and> comparison_rows cs y = Inr (rs @ alternative_strategies)
        \<and> tbl = srt TotalSavings False (rs @ alternative_strategies))"
proof (cases "cycles_loop cs y []")
  case (Inl e)
  then have "\<not> (\<exists>rs. list_all2 (\<lambda>c r. cycle_record c y = Inr r) cs rs)"
    using cycles_loop_Inr [of cs y "[]"] by auto
  with Inl show ?thesis
    by (auto simp: generate_comparison_data_def comparison_rows_def)
next
  case (Inr out)
  then show ?thesis
    using cycles_loop_Inr [of cs y "[]" out]
    by (auto simp: generate_comparison_data_def comparison_rows_def)
qed

lemma nonpositive_cycle_record:
  "c \<le> 0 \<Longrightarrow> cycle_record c y = Inl (if c = 0 then ZeroDivisionError else IndexError)"
  by (cases "c = 0") (simp_all add: cycle_record_zero cycle_record_negative)

lemma sort_values_desc_set:
  assumes "sort_values_desc srt"
  shows "set (srt TotalSavings False rows) = set rows"
proof -
  from assms have "mset (srt TotalSavings False rows) = mset rows"
    by (simp add: sort_values_desc_def)
  then show ?thesis by (rule mset_eq_setD)
qed

lemma descending_rev_sort_key: "descending (rev (sort_key TotalSavings rows))"
proof -
  have "sorted (map TotalSavings (sort_key TotalSavings rows))" by (rule sorted_sort_key)
  then have "sorted_wrt (\<lambda>a b. TotalSavings a \<le> TotalSavings b) (sort_key TotalSavings rows)"
    by (simp only: sorted_map)
  then show ?thesis by (simp only: descending_def sorted_wrt_rev)
qed

lemma sort_values_desc_stable_sort: "sort_values_desc stable_sort"
  unfolding sort_values_desc_def stable_sort_def if_False
  by (intro allI conjI descending_rev_sort_key) simp

lemma descending_iff: "descending rows \<longleftrightarrow> sorted (map TotalSavings (rev rows))"
  by (simp only: descending_def sorted_map sorted_wrt_rev)

lemma sort_values_contract_desc:
  assumes "sort_values_contract srt"
  shows "sort_values_desc srt"
proof -
  have "mset (srt TotalSavings False rows) = mset rows
      \<and> descending (srt TotalSavings False rows)" for rows
  proof -
    from assms have "mset (srt TotalSavings False rows) = mset rows \<and>
        sorted (map TotalSavings (if False then srt TotalSavings False rows
                                  else rev (srt TotalSavings False rows)))"
      unfolding sort_values_contract_def by blast
    then show ?thesis by (simp only: descending_iff if_False)
  qed
  then show ?thesis by (simp only: sort_values_desc_def simp_thms)
qed

lemma sort_values_contract_stable_sort: "sort_values_contract stable_sort"
  by (simp add: sort_values_contract_def stable_sort_def)

lemma sort_values_contract_unstable_sort: "sort_values_contract unstable_sort"
  by (simp add: sort_values_contract_def unstable_sort_def)

lemma ladder_sums:
  "sum_list (map (\<lambda>i. 50 * i) [1..52]) = (68900::int)"
  "sum_list (map (\<lambda>i. 50 * i) [1..7]) = (1400::int)"
  "sum_list (map (\<lambda>i. 100 * i) [1..7]) = (2800::int)"
  by (simp_all add: upto.simps)

lemma totals_eval:
  "w_total = 68900" "ladder_year_total = 72800" "agg_ladder_total = 145600"
  "payday_total = 72000" "weekday_total = 78000" "coffee_total = 21900"
  "binge_total = 104000" "date_match_total = 57380" "odd_even_total = 100150"
  "escalator_total = 39000" "fixed_daily * 365 = 66795"
  by (simp_all add: w_total_def week_amounts_def weeks_def ladder_year_total_def
      ladder_week_total_def agg_ladder_total_def agg_ladder_week_def payday_total_def
      payday_amount_def weekday_total_def weekday_amt_def coffee_total_def binge_total_def
      date_match_total_def odd_even_total_def escalator_total_def fixed_daily_def
      ladder_sums)

lemma alternative_strategies_eval:
  "alternative_strategies =
     [\<lparr>CyclesPerYear = 0, Label = ''Fixed Daily (183'' @ baht @ '')'',
        TotalSavings = enat 66795, TotalCouple = enat 133590, MaxDailyAmount = 183\<rparr>,
      \<lparr>CyclesPerYear = 0, Label = ''52-Week Challenge (x50)'',
        TotalSavings = enat 68900, TotalCouple = enat 137800, MaxDailyAmount = 2600\<rparr>,
      \<lparr>CyclesPerYear = 0, Label = ''Weekday Ladder'',
        TotalSavings = enat 72800, TotalCouple = enat 145600, MaxDailyAmount = 350\<rparr>,
      \<lparr>CyclesPerYear = 0, Label = ''Reverse 52-Week'',
        TotalSavings = enat 68900, TotalCouple = enat 137800, MaxDailyAmount = 2600\<rparr>,
      \<lparr>CyclesPerYear = 0, Label = ''Payday Sync (1st&16th)'',
        TotalSavings = enat 72000, TotalCouple = enat 144000, MaxDailyAmount = 3000\<rparr>,
      \<lparr>CyclesPerYear = 0, Label = ''No-Spend Weekends'',
        TotalSavings = enat 78000, TotalCouple = enat 156000, MaxDailyAmount = 300\<rparr>,
      \<lparr>CyclesPerYear = 0, Label = ''Aggressive Ladder'',
        TotalSavings = enat 145600, TotalCouple = enat 291200, MaxDailyAmount = 700\<rparr>,
      \<lparr>CyclesPerYear = 0, Label = ''Coffee Skip (60'' @ baht @ '')'',
        TotalSavings = enat 21900, TotalCouple = enat 43800, MaxDailyAmount = 60\<rparr>,
      \<lparr>CyclesPerYear = 0, Label = ''Weekend Binge'',
        TotalSavings = enat 104000, TotalCouple = enat 208000, MaxDailyAmount = 1000\<rparr>,
      \<lparr>CyclesPerYear = 0, Label = ''Date Match (x10)'',
        TotalSavings = enat 57380, TotalCouple = enat 114760, MaxDailyAmount = 310\<rparr>,
      \<lparr>CyclesPerYear = 0, Label = ''Odd/Even Smasher'',
        TotalSavings = enat 100150, TotalCouple = enat 200300, MaxDailyAmount = 500\<rparr>,
      \<lparr>CyclesPerYear = 0, Label = ''Workday Escalator'',
        TotalSavings = enat 39000, TotalCouple = enat 78000, MaxDailyAmount = 250\<rparr>]"
  by (simp add: alternative_strategies_def custom_def py_num_def totals_eval
      fixed_daily_def payday_amount_def weekday_amt_def)

lemma no_cycles_rows: "comparison_rows [] y = Inr alternative_strategies"
  by (simp add: comparison_rows_def)

lemma labels_stable_sort:
  "map Label (stable_sort TotalSavings False alternative_strategies) =
     [''Aggressive Ladder'', ''Weekend Binge'', ''Odd/Even Smasher'', ''No-Spend Weekends'',
      ''Weekday Ladder'', ''Payday Sync (1st&16th)'', ''52-Week Challenge (x50)'',
      ''Reverse 52-Week'', ''Fixed Daily (183'' @ baht @ '')'', ''Date Match (x10)'',
      ''Workday Escalator'', ''Coffee Skip (60'' @ baht @ '')'']"
  by (simp add: alternative_strategies_eval stable_sort_def)

lemma float_mul_2: "float_mul (enat n) 2 = to_float (n * 2)"
  by (simp add: float_mul_def numeral_eq_enat)

lemma yearly_record:
  "cycle_record 1 365 =
     Inr \<lparr>CyclesPerYear = 1, Label = ''Yearly (1)'', TotalSavings = enat 66795,
          TotalCouple = enat 133590, MaxDailyAmount = 365\<rparr>"
proof -
  have l: "cycle_lengths 1 365 = [365]" by (simp add: cycle_lengths_eq)
  have s: "savings_loop [365] 0 = Inr (enat 66795)"
    using savings_loop_exact [of 0 "[365]"]
    by (simp add: spec_grand_total_def spec_cycle_sum_numeral zero_enat_def)
  have m: "float_mul (enat 66795) 2 = enat 133590"
    by (simp add: float_mul_2 to_float_small)
  show ?thesis
    unfolding cycle_record_eq [of 1 365, simplified] l s
    by (simp add: m cycle_labels_def)
qed

lemma cycle_record_positive: "cycle_record c y = Inr r \<Longrightarrow> 1 \<le> c"
  using nonpositive_cycle_record [of c y] by (cases "c \<le> 0") auto

lemma table_rows:
  assumes "sort_values_desc srt" and "generate_comparison_data srt cs y = Inr table"
    and "r \<in> set table"
  shows "(\<exists>c. c \<in> set cs \<and> cycle_record c y = Inr r) \<or> r \<in> set alternative_strategies"
proof -
  from assms(2) obtain rs where rs: "list_all2 (\<lambda>c r. cycle_record c y = Inr r) cs rs"
    and t: "table = srt TotalSavings False (rs @ alternative_strategies)"
    by (auto simp: generate_comparison_data_Inr)
  from assms(1,3) t have "r \<in> set rs \<or> r \<in> set alternative_strategies"
    by (auto simp: sort_values_desc_set)
  then show ?thesis
  proof
    assume "r \<in> set rs"
    then obtain i where i: "i < length rs" and ri: "rs ! i = r"
      by (auto simp: in_set_conv_nth)
    from rs i have "cycle_record (cs ! i) y = Inr (rs ! i)" and il: "i < length cs"
      by (auto simp: list_all2_conv_all_nth)
    moreover have "cs ! i \<in> set cs" using il by (rule nth_mem)
    ultimately have "cs ! i \<in> set cs \<and> cycle_record (cs ! i) y = Inr r"
      using ri by simp
    then show ?thesis by blast
  next
    assume "r \<in> set alternative_strategies"
    then show ?thesis ..
  qed
qed

lemma alternatives_in_table:
  assumes "sort_values_desc srt" and "generate_comparison_data srt cs y = Inr table"
  shows "set alternative_strategies \<subseteq> set table"
proof -
  from assms(2) obtain rs where "table = srt TotalSavings False (rs @ alternative_strategies)"
    by (auto simp: generate_comparison_data_Inr)
  with assms(1) show ?thesis by (auto simp: sort_values_desc_set)
qed

lemma representable_double: "representable n \<Longrightarrow> representable (2 * n)"
proof (cases "n < 2 ^ 52")
  case True
  then have "2 * n < 2 ^ 53" by simp
  then show ?thesis by (simp only: representable_def simp_thms)
next
  case False
  assume rep: "representable n"
  show ?thesis
  proof (cases "n < 2 ^ 53")
    case True
    have "representable (n * 2 ^ 1)"
      using False True by (intro representable_scaled) simp_all
    then show ?thesis by (simp add: mult.commute)
  next
    case f: False
    then have big: "2 ^ 53 \<le> n" by simp
    define e where "e = bit_length n - 53"
    from rep f have d: "2 ^ e dvd n" by (simp add: representable_def e_def)
    have "representable (n div 2 ^ e * 2 ^ Suc e)"
      using big_significand [OF big] by (intro representable_scaled) (simp_all add: e_def)
    moreover have "n div 2 ^ e * 2 ^ Suc e = 2 * n"
      using d by simp
    ultimately show ?thesis by (simp only:)
  qed
qed

lemma float_mul_enat: "float_mul (enat a) (enat b) = to_float (a * b)"
  by (simp add: float_mul_def)

lemma float_mul_double:
  assumes "is_float t"
  shows "float_mul t 2 = 2 * t \<or> float_mul t 2 = \<infinity>"
proof (cases t)
  case (enat n)
  with assms have "representable n" by (simp add: is_float_def)
  then have "float_round (2 * n) = 2 * n"
    by (intro float_round_representable representable_double)
  then show ?thesis
    by (simp add: enat float_mul_enat to_float_def mult.commute numeral_eq_enat)
next
  case infinity
  then show ?thesis by (simp add: float_mul_def numeral_eq_enat)
qed

lemma cycle_record_couple:
  assumes "cycle_record c y = Inr r"
  shows "TotalCouple r = float_mul (TotalSavings r) 2 \<and> is_float (TotalSavings r)"
proof -
  from assms have c: "1 \<le> c" by (rule cycle_record_positive)
  from assms obtain t where t: "savings_loop (cycle_lengths c y) 0 = Inr t"
    and r: "TotalSavings r = t" "TotalCouple r = float_mul t 2"
    by (auto simp: cycle_record_eq [OF c] split: sum.splits)
  from savings_loop_is_float [OF is_float_0 t] r show ?thesis by simp
qed

lemma alternative_couple:
  assumes "r \<in> set alternative_strategies"
  shows "TotalCouple r = float_mul (TotalSavings r) 2 \<and> TotalCouple r = 2 * TotalSavings r"
  using assms
  by (auto simp: alternative_strategies_eval float_mul_enat to_float_small numeral_eq_enat)

lemma max_in_cycle_lengths:
  "1 \<le> c \<Longrightarrow> (if y mod c = 0 then y div c else y div c + 1) \<in> set (cycle_lengths c y)"
  by (simp add: set_cycle_lengths)

lemma cycle_record_peak:
  assumes "cycle_record c y = Inr r" and y: "0 \<le> y"
  shows "0 \<le> MaxDailyAmount r \<and> py_num (MaxDailyAmount r) \<le> TotalSavings r"
proof -
  from assms(1) have c: "1 \<le> c" by (rule cycle_record_positive)
  from assms(1) obtain t where t: "savings_loop (cycle_lengths c y) 0 = Inr t"
    and r: "TotalSavings r = t"
      "MaxDailyAmount r = (if y mod c = 0 then y div c else y div c + 1)"
    by (auto simp: cycle_record_eq [OF c] split: sum.splits)
  have m: "MaxDailyAmount r \<in> set (cycle_lengths c y)"
    unfolding r by (rule max_in_cycle_lengths [OF c])
  from cycle_lengths_nonneg [OF c y m] savings_loop_ge_elem [OF t m] r
  show ?thesis by (simp add: py_num_def)
qed

lemma alternative_peak:
  assumes "r \<in> set alternative_strategies"
  shows "0 \<le> MaxDailyAmount r \<and> py_num (MaxDailyAmount r) \<le> TotalSavings r"
  using assms by (auto simp: alternative_strategies_eval py_num_def)

lemma yearly_table:
  "generate_comparison_data stable_sort [1] 365 =
     Inr (stable_sort TotalSavings False
       (\<lparr>CyclesPerYear = 1, Label = ''Yearly (1)'', TotalSavings = enat 66795,
          TotalCouple = enat 133590, MaxDailyAmount = 365\<rparr> # alternative_strategies))"
  by (simp add: generate_comparison_data_def comparison_rows_def yearly_record)

lemma yearly_in_table:
  "\<lparr>CyclesPerYear = 1, Label = ''Yearly (1)'', TotalSavings = enat 66795,
     TotalCouple = enat 133590, MaxDailyAmount = 365\<rparr>
   \<in> set (stable_sort TotalSavings False
       (\<lparr>CyclesPerYear = 1, Label = ''Yearly (1)'', TotalSavings = enat 66795,
          TotalCouple = enat 133590, MaxDailyAmount = 365\<rparr> # alternative_strategies))"
  by (simp add: sort_values_desc_set [OF sort_values_desc_stable_sort])

lemma cycle_record_365:
  assumes c: "1 \<le> c"
  shows "\<exists>r. cycle_record c 365 = Inr r \<and> TotalSavings r \<le> enat 66795"
proof -
  have "spec_grand_total (cycle_lengths c 365) \<le> spec_cycle_sum 365"
    by (rule spec_grand_total_cycle_lengths_le [OF c]) simp
  then have le: "spec_grand_total (cycle_lengths c 365) \<le> 66795"
    by (simp add: spec_cycle_sum_numeral)
  then have "0 + spec_grand_total (cycle_lengths c 365) < 2 ^ 53" by simp
  from savings_loop_exact [OF this]
  have "savings_loop (cycle_lengths c 365) 0 = Inr (enat (spec_grand_total (cycle_lengths c 365)))"
    by (simp add: zero_enat_def)
  then show ?thesis using le by (simp add: cycle_record_eq [OF c])
qed

lemma list_all2_exists:
  "(\<And>c. c \<in> set cs \<Longrightarrow> \<exists>r. P c r) \<Longrightarrow> \<exists>rs. list_all2 P cs rs"
proof (induction cs)
  case Nil
  then show ?case by simp
next
  case (Cons c cs)
  from Cons.prems obtain r where "P c r" by auto
  moreover from Cons obtain rs where "list_all2 P cs rs" by auto
  ultimately have "list_all2 P (c # cs) (r # rs)" by simp
  then show ?case ..
qed

lemma descending_hd:
  "descending rows \<Longrightarrow> r \<in> set rows \<Longrightarrow> TotalSavings r \<le> TotalSavings (hd rows)"
  by (cases rows) (auto simp: descending_def)

lemma alternatives_top:
  "r \<in> set alternative_strategies \<Longrightarrow> enat 145600 \<le> TotalSavings r \<Longrightarrow>
   r = \<lparr>CyclesPerYear = 0, Label = ''Aggressive Ladder'', TotalSavings = enat 145600,
         TotalCouple = enat 291200, MaxDailyAmount = 700\<rparr>"
  by (auto simp: alternative_strategies_eval)

lemma alternatives_others:
  "r \<in> set alternative_strategies \<Longrightarrow>
   r = \<lparr>CyclesPerYear = 0, Label = ''Aggressive Ladder'', TotalSavings = enat 145600,
         TotalCouple = enat 291200, MaxDailyAmount = 700\<rparr>
   \<or> TotalSavings r \<le> enat 104000"
  by (auto simp: alternative_strategies_eval)

lemma aggressive_ladder_in_alternatives:
  "\<lparr>CyclesPerYear = 0, Label = ''Aggressive Ladder'', TotalSavings = enat 145600,
     TotalCouple = enat 291200, MaxDailyAmount = 700\<rparr> \<in> set alternative_strategies"
  by (simp add: alternative_strategies_eval)

lemma small_years_exact:
  assumes c: "1 \<le> c" and y: "0 \<le> y" and small: "y \<le> 134217727"
  shows "spec_grand_total (cycle_lengths c y) < 2 ^ 53"
proof -
  have "spec_grand_total (cycle_lengths c y) \<le> spec_cycle_sum y"
    using c y by (rule spec_grand_total_cycle_lengths_le)
  also have "\<dots> \<le> spec_cycle_sum 134217727"
    using y small by (rule spec_cycle_sum_mono)
  also have "\<dots> < 2 ^ 53" by (simp add: spec_cycle_sum_numeral)
  finally show ?thesis .
qed

lemma stable_sort_keeps_tie_order: "keeps_tie_order rows (stable_sort TotalSavings False rows)"
proof -
  have "filter (\<lambda>r. TotalSavings r = t) (stable_sort TotalSavings False rows) =
      filter (\<lambda>r. TotalSavings r = t) rows" for t
  proof -
    have "filter (\<lambda>r. TotalSavings r = t) (stable_sort TotalSavings False rows) =
        rev (filter (\<lambda>r. TotalSavings r = t) (sort_key TotalSavings (rev rows)))"
      by (simp only: stable_sort_def if_False rev_filter)
    also have "\<dots> = rev (filter (\<lambda>r. TotalSavings r = t) (rev rows))"
      by (simp only: sort_key_stable)
    also have "\<dots> = filter (\<lambda>r. TotalSavings r = t) rows"
      by (simp only: rev_filter rev_rev_ident)
    finally show ?thesis .
  qed
  then show ?thesis by (simp add: keeps_tie_order_def)
qed

lemma cycle_product: "even (l * (l + 1)) \<and> 0 \<le> l * (l + 1)" for l :: int
proof
  show "even (l * (l + 1))" by simp
  show "0 \<le> l * (l + 1)" by (cases "0 \<le> l") (simp_all add: zero_le_mult_iff)
qed

lemma semi_annual_record:
  "cycle_record 2 365 =
     Inr \<lparr>CyclesPerYear = 2, Label = ''Semi-Annual (2)'', TotalSavings = enat 33489,
          TotalCouple = enat 66978, MaxDailyAmount = 183\<rparr>"
proof -
  have l: "cycle_lengths 2 365 = [183, 182]" by (simp add: cycle_lengths_eq numeral_2_eq_2)
  have s: "savings_loop [183, 182] 0 = Inr (enat 33489)"
    using savings_loop_exact [of 0 "[183, 182]"]
    by (simp add: spec_grand_total_def spec_cycle_sum_numeral zero_enat_def)
  have m: "float_mul (enat 33489) 2 = enat 66978"
    by (simp add: float_mul_2 to_float_small)
  show ?thesis
    unfolding cycle_record_eq [of 2 365, simplified] l s
    by (simp add: m cycle_labels_def)
qed

section \<open>Day counts below zero and beyond the floats\<close>

lemma float_round_huge:
  assumes "2 ^ 1024 \<le> n"
  shows "2 ^ 1024 \<le> float_round n"
proof -
  from assms have "float_round (2 ^ 1024) \<le> float_round n" by (rule float_round_mono)
  then show ?thesis by (simp only: float_round_representable [OF representable_pow2])
qed

lemma cycle_sum_overflow:
  "2 ^ 1024 \<le> spec_cycle_sum l \<Longrightarrow> cycle_sum l = Inl OverflowError"
  using float_round_huge [of "spec_cycle_sum l"] by (simp add: cycle_sum_eq not_less [symmetric])

lemma negative_year_lengths: "cycle_lengths 2 (- 5) = [- 2, - 3]"
  by (simp add: cycle_lengths_eq numeral_2_eq_2)

lemma negative_year_total: "savings_loop [- 2, - 3] 0 = Inr (enat 4)"
  using savings_loop_exact [of 0 "[- 2, - 3]"]
  by (simp add: spec_grand_total_def spec_cycle_sum_def zero_enat_def)

lemma negative_year_savings: "calculate_yearly_savings 2 (- 5) = Inr (enat 4, [- 2, - 3])"
  unfolding calculate_yearly_savings_eq [of 2 "- 5", simplified] negative_year_lengths
    negative_year_total
  by simp

lemma negative_year_record:
  "cycle_record 2 (- 5) =
     Inr \<lparr>CyclesPerYear = 2, Label = ''Semi-Annual (2)'', TotalSavings = enat 4,
          TotalCouple = enat 8, MaxDailyAmount = - 2\<rparr>"
proof -
  have m: "float_mul (enat 4) 2 = enat 8"
    by (simp add: float_mul_2 to_float_small)
  show ?thesis
    unfolding cycle_record_eq [of 2 "- 5", simplified] negative_year_lengths negative_year_total
    by (simp add: m cycle_labels_def)
qed

lemma negative_year_table:
  "generate_comparison_data stable_sort [2] (- 5) =
     Inr (stable_sort TotalSavings False
       (\<lparr>CyclesPerYear = 2, Label = ''Semi-Annual (2)'', TotalSavings = enat 4,
          TotalCouple = enat 8, MaxDailyAmount = - 2\<rparr> # alternative_strategies))"
  by (simp add: generate_comparison_data_def comparison_rows_def negative_year_record)

lemma huge_negative_lengths: "cycle_lengths 1 (- (2 ^ 600)) = [- (2 ^ 600)]"
  by (simp add: cycle_lengths_eq)

lemma huge_negative_sum: "cycle_sum (- (2 ^ 600)) = Inl OverflowError"
  by (rule cycle_sum_overflow) (simp add: spec_cycle_sum_def)

lemma huge_negative_savings: "calculate_yearly_savings 1 (- (2 ^ 600)) = Inl OverflowError"
  by (simp only: calculate_yearly_savings_eq [of 1, simplified] huge_negative_lengths
      savings_loop.simps huge_negative_sum sum.case)

lemma bit_length_huge: "bit_length (2 ^ 1023 + 2 ^ 511) = 1024"
proof -
  have "bit_length (2 ^ 1023 + 2 ^ 511) = Suc 1023"
    by (rule bit_length_eq) simp_all
  then show ?thesis by simp
qed

lemma float_round_huge_example: "float_round (2 ^ 1023 + 2 ^ 511) = 2 ^ 1023"
proof -
  have big: "(2::nat) ^ 53 \<le> 2 ^ 1023 + 2 ^ 511" by simp
  show ?thesis
    unfolding float_round_big [OF big] bit_length_huge by simp
qed

lemma huge_year_lengths: "cycle_lengths 1 (2 ^ 512) = [2 ^ 512]"
  by (simp add: cycle_lengths_eq)

lemma huge_year_sum: "cycle_sum (2 ^ 512) = Inr (enat (2 ^ 1023))"
proof -
  have s: "spec_cycle_sum (2 ^ 512) = 2 ^ 1023 + 2 ^ 511" by (simp add: spec_cycle_sum_def)
  show ?thesis unfolding cycle_sum_eq s float_round_huge_example by simp
qed

lemma huge_year_total: "savings_loop [2 ^ 512] 0 = Inr (enat (2 ^ 1023))"
  by (rule cycle_sum_single [OF huge_year_sum])

lemma to_float_overflow: "to_float (2 ^ 1024) = \<infinity>"
  unfolding to_float_def float_round_representable [OF representable_pow2] by simp

lemma huge_year_double: "float_mul (enat (2 ^ 1023)) 2 = \<infinity>"
proof -
  have "float_mul (enat (2 ^ 1023)) 2 = to_float (2 ^ 1023 * 2)" by (rule float_mul_2)
  also have "(2::nat) ^ 1023 * 2 = 2 ^ 1024" by simp
  finally show ?thesis by (simp only: to_float_overflow)
qed

lemma huge_year_record:
  "cycle_record 1 (2 ^ 512) =
     Inr \<lparr>CyclesPerYear = 1, Label = ''Yearly (1)'', TotalSavings = enat (2 ^ 1023),
          TotalCouple = \<infinity>, MaxDailyAmount = 2 ^ 512\<rparr>"
proof -
  have r: "cycle_record 1 (2 ^ 512) =
    (case savings_loop (cycle_lengths 1 (2 ^ 512)) 0 of
       Inl e \<Rightarrow> Inl e
     | Inr t \<Rightarrow>
         Inr \<lparr>CyclesPerYear = 1,
              Label = (case cycle_labels 1 of Some l \<Rightarrow> l | None \<Rightarrow> str_int 1),
              TotalSavings = t,
              TotalCouple = float_mul t 2,
              MaxDailyAmount =
                (if (2 ^ 512) mod 1 = (0::int) then 2 ^ 512 div 1 else 2 ^ 512 div 1 + 1)\<rparr>)"
    by (rule cycle_record_eq) simp
  show ?thesis
    unfolding r huge_year_lengths huge_year_total sum.case huge_year_double
    by (simp add: cycle_labels_def)
qed

lemma huge_year_table:
  "generate_comparison_data stable_sort [1] (2 ^ 512) =
     Inr (stable_sort TotalSavings False
       (\<lparr>CyclesPerYear = 1, Label = ''Yearly (1)'', TotalSavings = enat (2 ^ 1023),
          TotalCouple = \<infinity>, MaxDailyAmount = 2 ^ 512\<rparr> # alternative_strategies))"
  unfolding generate_comparison_data_def comparison_rows_def cycles_loop.simps huge_year_record
  by simp

lemma float_mul_double_exact:
  assumes "is_float t"
  shows "float_mul t 2 = (if 2 * t < enat (2 ^ 1024) then 2 * t else \<infinity>)"
proof (cases t)
  case (enat n)
  with assms have r: "representable n" by (simp add: is_float_def)
  have "representable (n * 2)" using representable_double [OF r] by (simp add: mult.commute)
  then have f: "float_round (n * 2) = n * 2" by (rule float_round_representable)
  have "float_mul (enat n) 2 = to_float (n * 2)" by (rule float_mul_2)
  also have "\<dots> = (if n * 2 < 2 ^ 1024 then enat (n * 2) else \<infinity>)"
    unfolding to_float_def f ..
  also have "\<dots> = (if 2 * enat n < enat (2 ^ 1024) then 2 * enat n else \<infinity>)"
    by (simp add: numeral_eq_enat mult.commute)
  finally show ?thesis by (simp only: enat)
next
  case infinity
  then show ?thesis by (simp add: float_mul_def numeral_eq_enat)
qed

lemma double_small:
  assumes "n < 2 ^ 53"
  shows "(if 2 * enat n < enat (2 ^ 1024) then 2 * enat n else \<infinity>) = 2 * enat n"
proof -
  have "(2::nat) ^ 53 * 2 \<le> 2 ^ 1024" by simp
  with assms have "n * 2 < 2 ^ 1024" by linarith
  then show ?thesis by (simp add: numeral_eq_enat mult.commute)
qed

lemma cycle_record_exact:
  assumes "cycle_record c y = Inr r" and y: "0 \<le> y" and small: "y \<le> 134217727"
  shows "TotalSavings r = enat (spec_grand_total (cycle_lengths c y))
       \<and> spec_grand_total (cycle_lengths c y) < 2 ^ 53"
proof -
  from assms(1) have c: "1 \<le> c" by (rule cycle_record_positive)
  have s: "spec_grand_total (cycle_lengths c y) < 2 ^ 53"
    using c y small by (rule small_years_exact)
  have "savings_loop (cycle_lengths c y) 0 = Inr (enat (spec_grand_total (cycle_lengths c y)))"
    using savings_loop_exact [of 0 "cycle_lengths c y"] s by (simp add: zero_enat_def)
  with assms(1) show ?thesis using s by (auto simp: cycle_record_eq [OF c])
qed

lemma cycle_record_peak_le:
  assumes "cycle_record c y = Inr r"
  shows "py_num (MaxDailyAmount r) \<le> TotalSavings r"
proof -
  from assms have c: "1 \<le> c" by (rule cycle_record_positive)
  from assms obtain t where t: "savings_loop (cycle_lengths c y) 0 = Inr t"
    and r: "TotalSavings r = t"
      "MaxDailyAmount r = (if y mod c = 0 then y div c else y div c + 1)"
    by (auto simp: cycle_record_eq [OF c] split: sum.splits)
  have m: "MaxDailyAmount r \<in> set (cycle_lengths c y)"
    unfolding r by (rule max_in_cycle_lengths [OF c])
  from savings_loop_ge_elem [OF t m] r show ?thesis by (simp add: py_num_def)
qed

lemma nonneg_totals:
  "list_all (\<lambda>s. 0 \<le> s)
     [fixed_daily * 365, w_total, ladder_year_total, payday_total, weekday_total,
      agg_ladder_total, coffee_total, binge_total, date_match_total, odd_even_total,
      escalator_total]"
  by (simp add: totals_eval)

lemma yearly_rows:
  "comparison_rows [1] 365 =
     Inr (\<lparr>CyclesPerYear = 1, Label = ''Yearly (1)'', TotalSavings = enat 66795,
            TotalCouple = enat 133590, MaxDailyAmount = 365\<rparr> # alternative_strategies)"
  by (simp add: comparison_rows_def yearly_record)

section \<open>Claims on calculate\_yearly\_savings\<close>

text \<open>
  Claim C1, as amended. For \<open>num_cycles \<ge> 1\<close> and \<open>year_days \<ge> 0\<close>, whenever the exact
  sum of \<open>L * (L + 1) / 2\<close> over the cycle lengths is below \<open>2 ^ 53\<close>, as it is for every
  \<open>year_days \<le> 134217727\<close>, the grand total that \<^verbatim>\<open>calculate_yearly_savings\<close> returns is
  exactly that sum. For 365 days the total is 66795 with one cycle, 33489 with two and
  365 with 365 cycles.
\<close>

theorem grand_total_exact:
  assumes "1 \<le> num_cycles" and "0 \<le> year_days"
  shows "(spec_grand_total (cycle_lengths num_cycles year_days) < 2 ^ 53 \<longrightarrow>
            calculate_yearly_savings num_cycles year_days =
              Inr (enat (spec_grand_total (cycle_lengths num_cycles year_days)),
                   cycle_lengths num_cycles year_days))
       \<and> (year_days \<le> 134217727 \<longrightarrow>
            spec_grand_total (cycle_lengths num_cycles year_days) < 2 ^ 53)
       \<and> calculate_yearly_savings 1 365 = Inr (enat 66795, [365])
       \<and> calculate_yearly_savings 2 365 = Inr (enat 33489, [183, 182])
       \<and> calculate_yearly_savings 365 365 = Inr (enat 365, replicate 365 1)"
proof -
  from assms(1) have nz: "num_cycles \<noteq> 0" by simp
  have l1: "cycle_lengths 1 365 = [365]"
    by (simp add: cycle_lengths_eq)
  have l2: "cycle_lengths 2 365 = [183, 182]"
    by (simp add: cycle_lengths_eq numeral_2_eq_2)
  have l365: "cycle_lengths 365 365 = replicate 365 1"
    by (simp add: cycle_lengths_eq)
  have "calculate_yearly_savings 1 365 = Inr (enat 66795, [365])"
    using calculate_yearly_savings_exact [of 1 365]
    by (simp add: l1 spec_grand_total_def spec_cycle_sum_numeral)
  moreover have "calculate_yearly_savings 2 365 = Inr (enat 33489, [183, 182])"
    using calculate_yearly_savings_exact [of 2 365]
    by (simp add: l2 spec_grand_total_def spec_cycle_sum_numeral)
  moreover have "calculate_yearly_savings 365 365 = Inr (enat 365, replicate 365 1)"
    using calculate_yearly_savings_exact [of 365 365]
    by (simp add: l365 spec_grand_total_replicate spec_cycle_sum_def)
  moreover have "year_days \<le> 134217727 \<longrightarrow>
      spec_grand_total (cycle_lengths num_cycles year_days) < 2 ^ 53"
    using small_years_exact [OF assms] by blast
  ultimately show ?thesis
    using calculate_yearly_savings_exact [OF nz] by blast
qed

theorem grand_total_exact_witness:
  "(1::int) \<le> 4 \<and> (0::int) \<le> 365
   \<and> spec_grand_total (cycle_lengths 4 365) = 16836 \<and> (16836::nat) < 2 ^ 53
   \<and> calculate_yearly_savings 4 365 = Inr (enat 16836, [92, 91, 91, 91])"
proof -
  have l: "cycle_lengths 4 365 = [92, 91, 91, 91]"
    by (simp add: cycle_lengths_eq eval_nat_numeral)
  have t: "spec_grand_total (cycle_lengths 4 365) = 16836"
    by (simp add: l spec_grand_total_def spec_cycle_sum_numeral)
  show ?thesis
    using grand_total_exact [of 4 365] by (simp add: t) (simp add: l)
qed

text \<open>
  Claim C1 as stated, for every \<open>year_days \<ge> 0\<close>, fails: the total is a binary64 float.
  With one cycle of 134217729 days the exact sum is 9007199456067585, which is odd and
  above \<open>2 ^ 53\<close>; \<^verbatim>\<open>134217729 * 134217730 / 2\<close> is the float 9007199456067584.0.
\<close>

theorem grand_total_inexact:
  "calculate_yearly_savings 1 134217729 = Inr (enat 9007199456067584, [134217729])
   \<and> spec_grand_total [134217729] = 9007199456067585
   \<and> spec_grand_total (cycle_lengths 1 134217729) = 9007199456067585"
proof -
  have l: "cycle_lengths 1 134217729 = [134217729]"
    by (simp add: cycle_lengths_eq)
  have s: "spec_cycle_sum 134217729 = 9007199456067585"
    by (simp add: spec_cycle_sum_numeral)
  have "(9007199456067584::nat) < 2 ^ 1024" by simp
  then have c: "cycle_sum 134217729 = Inr (enat 9007199456067584)"
    by (simp only: cycle_sum_eq s float_round_example if_True)
  have "calculate_yearly_savings 1 134217729 = Inr (enat 9007199456067584, [134217729])"
    unfolding calculate_yearly_savings_eq [of 1 134217729, simplified] l
    by (simp only: cycle_sum_single [OF c] sum.case)
  then show ?thesis by (simp add: l spec_grand_total_def s)
qed

text \<open>
  Claim C2. For \<open>num_cycles \<ge> 1\<close> and \<open>year_days \<ge> 0\<close> the lengths that
  \<^verbatim>\<open>calculate_yearly_savings\<close> returns are \<open>cycle_lengths\<close>; there are \<open>num_cycles\<close> of
  them, they sum to \<open>year_days\<close>, the largest and the smallest differ by at most 1, and
  the first \<open>year_days mod num_cycles\<close> are \<open>year_days div num_cycles + 1\<close> while the
  rest are \<open>year_days div num_cycles\<close>.
\<close>

theorem partition_lengths:
  assumes "1 \<le> num_cycles" and "0 \<le> year_days"
  shows "calculate_yearly_savings num_cycles year_days =
           (case savings_loop (cycle_lengths num_cycles year_days) 0 of
              Inl e \<Rightarrow> Inl e
            | Inr grand_total \<Rightarrow> Inr (grand_total, cycle_lengths num_cycles year_days))
       \<and> length (cycle_lengths num_cycles year_days) = nat num_cycles
       \<and> sum_list (cycle_lengths num_cycles year_days) = year_days
       \<and> Max (set (cycle_lengths num_cycles year_days))
           - Min (set (cycle_lengths num_cycles year_days)) \<le> 1
       \<and> cycle_lengths num_cycles year_days =
           replicate (nat (year_days mod num_cycles)) (year_days div num_cycles + 1)
           @ replicate (nat (num_cycles - year_days mod num_cycles)) (year_days div num_cycles)"
proof -
  from assms(1) have nz: "num_cycles \<noteq> 0" by simp
  show ?thesis
    using calculate_yearly_savings_eq [OF nz, of year_days]
      length_cycle_lengths [OF assms(1), of year_days]
      sum_cycle_lengths [OF assms(1), of year_days]
      spread_cycle_lengths [OF assms(1), of year_days]
      cycle_lengths_eq [OF assms(1), of year_days]
    by (intro conjI)
qed

theorem partition_lengths_witness:
  "(1::int) \<le> 2 \<and> (0::int) \<le> 365
   \<and> cycle_lengths 2 365 = [183, 182]
   \<and> calculate_yearly_savings 2 365 = Inr (enat 33489, [183, 182])
   \<and> length (cycle_lengths 2 365) = 2 \<and> sum_list (cycle_lengths 2 365) = 365"
proof -
  have l: "cycle_lengths 2 365 = [183, 182]"
    using partition_lengths [of 2 365] by (simp add: numeral_2_eq_2)
  have s: "savings_loop [183, 182] 0 = Inr (enat 33489)"
    using savings_loop_exact [of 0 "[183, 182]"]
    by (simp add: spec_grand_total_def spec_cycle_sum_numeral zero_enat_def)
  have c: "calculate_yearly_savings 2 365 = Inr (enat 33489, [183, 182])"
    using partition_lengths [of 2 365] unfolding l s by simp
  show ?thesis
    by (simp add: l c)
qed

text \<open>
  Claim C8. With \<open>year_days \<ge> 0\<close> fixed and \<open>1 \<le> c1 \<le> c2\<close>, the largest cycle length for
  \<open>c2\<close> cycles is at most the largest for \<open>c1\<close> cycles, and so is \<^verbatim>\<open>MaxDailyAmount\<close> of
  the two cycle records.
\<close>

theorem max_length_antimono:
  assumes "0 \<le> year_days" and "1 \<le> c1" and "c1 \<le> c2"
  shows "(\<exists>m1 m2. py_max (cycle_lengths c1 year_days) = Inr m1
            \<and> py_max (cycle_lengths c2 year_days) = Inr m2 \<and> m2 \<le> m1)
       \<and> (\<forall>r1 r2. cycle_record c1 year_days = Inr r1 \<and> cycle_record c2 year_days = Inr r2
            \<longrightarrow> MaxDailyAmount r2 \<le> MaxDailyAmount r1)"
proof -
  from assms have c2: "1 \<le> c2" by simp
  note le = ceil_div_antimono [OF assms]
  have a: "\<exists>m1 m2. py_max (cycle_lengths c1 year_days) = Inr m1
            \<and> py_max (cycle_lengths c2 year_days) = Inr m2 \<and> m2 \<le> m1"
    using le by (simp add: py_max_cycle_lengths [OF assms(2)] py_max_cycle_lengths [OF c2])
  have b: "MaxDailyAmount r2 \<le> MaxDailyAmount r1"
    if "cycle_record c1 year_days = Inr r1" and "cycle_record c2 year_days = Inr r2" for r1 r2
    using that le
    by (auto simp: cycle_record_eq [OF assms(2)] cycle_record_eq [OF c2] split: sum.splits)
  from a b show ?thesis by blast
qed

theorem max_length_antimono_witness:
  "(0::int) \<le> 365 \<and> (1::int) \<le> 1 \<and> (1::int) \<le> 2
   \<and> py_max (cycle_lengths 1 365) = Inr 365 \<and> py_max (cycle_lengths 2 365) = Inr 183
   \<and> cycle_record 1 365 =
       Inr \<lparr>CyclesPerYear = 1, Label = ''Yearly (1)'', TotalSavings = enat 66795,
            TotalCouple = enat 133590, MaxDailyAmount = 365\<rparr>
   \<and> cycle_record 2 365 =
       Inr \<lparr>CyclesPerYear = 2, Label = ''Semi-Annual (2)'', TotalSavings = enat 33489,
            TotalCouple = enat 66978, MaxDailyAmount = 183\<rparr>
   \<and> (183::int) \<le> 365"
  using max_length_antimono [of 365 1 2]
  by (simp add: py_max_cycle_lengths yearly_record semi_annual_record)

text \<open>
  Claim C9, as amended. With \<open>0 \<le> year_days < num_cycles\<close> no error is raised: the lengths are
  \<open>year_days\<close> ones followed by \<open>num_cycles - year_days\<close> zeros, at least one zero; a
  zero-length cycle is valued \<open>0\<close>, and the grand total is the total of the one-day cycles
  alone, the float \<open>min year_days (2 ^ 53)\<close>.
\<close>

theorem more_cycles_than_days:
  assumes "0 \<le> year_days" and "year_days < num_cycles"
  shows "calculate_yearly_savings num_cycles year_days =
           Inr (enat (min (nat year_days) (2 ^ 53)),
                replicate (nat year_days) 1 @ replicate (nat (num_cycles - year_days)) 0)
       \<and> 0 < nat (num_cycles - year_days)
       \<and> cycle_sum 0 = Inr 0
       \<and> savings_loop (replicate (nat year_days) 1) 0 =
           Inr (enat (min (nat year_days) (2 ^ 53)))"
proof -
  from assms have c: "1 \<le> num_cycles" and nz: "num_cycles \<noteq> 0" by simp_all
  have l: "cycle_lengths num_cycles year_days =
      replicate (nat year_days) 1 @ replicate (nat (num_cycles - year_days)) 0"
    using assms by (simp add: cycle_lengths_eq [OF c] div_pos_pos_trivial mod_pos_pos_trivial)
  have ones: "savings_loop (replicate (nat year_days) 1) 0 =
      Inr (enat (min (nat year_days) (2 ^ 53)))"
    using savings_loop_ones [of 0 "nat year_days"] by (simp add: zero_enat_def)
  have f: "is_float (enat (min (nat year_days) (2 ^ 53)))"
    using savings_loop_is_float [OF is_float_0 ones] .
  have "savings_loop (cycle_lengths num_cycles year_days) 0 =
      Inr (enat (min (nat year_days) (2 ^ 53)))"
    unfolding l savings_loop_append ones sum.case by (rule savings_loop_zeros [OF f])
  then show ?thesis
    using assms by (simp add: calculate_yearly_savings_eq [OF nz] l ones cycle_sum_0)
qed

theorem more_cycles_than_days_witness:
  "(0::int) \<le> 3 \<and> (3::int) < 5
   \<and> calculate_yearly_savings 5 3 = Inr (enat 3, [1, 1, 1, 0, 0])"
proof -
  have a: "replicate (nat 3) (1::int) = [1, 1, 1]" by (simp add: numeral_3_eq_3)
  have b: "replicate (nat (5 - 3)) (0::int) = [0, 0]" by (simp add: numeral_2_eq_2)
  have m: "min (nat 3) (2 ^ 53) = 3" by simp
  show ?thesis
    using more_cycles_than_days [of 3 5] unfolding a b m by simp
qed

text \<open>
  Claim C9 as stated covers every \<open>year_days\<close> below \<open>num_cycles\<close>, also the negative
  ones, and fails there. With \<open>year_days = - 5\<close> and two cycles the lengths are \<open>- 2\<close>
  and \<open>- 3\<close>: no cycle has length zero. With \<open>year_days = - (2 ^ 600)\<close> and one cycle,
  the true division raises OverflowError.
\<close>

theorem negative_year_days:
  "(1::int) \<le> 2 \<and> (- 5::int) < 2
   \<and> calculate_yearly_savings 2 (- 5) = Inr (enat 4, [- 2, - 3])
   \<and> 0 \<notin> set [- 2, - 3 :: int]
   \<and> (- (2 ^ 600) :: int) < 1
   \<and> calculate_yearly_savings 1 (- (2 ^ 600)) = Inl OverflowError"
  using negative_year_savings huge_negative_savings by simp

section \<open>Claims on generate\_comparison\_data\<close>

text \<open>
  Claim C3, as amended. Line 247 asks pandas for a sort by \<^verbatim>\<open>TotalSavings\<close>, descending.
  Whatever sort pandas runs within its promise, the table that
  \<^verbatim>\<open>generate_comparison_data\<close> returns is therefore in descending order of
  \<^verbatim>\<open>TotalSavings\<close> and holds exactly the rows of \<^verbatim>\<open>data\<close>. The order of rows with equal
  \<^verbatim>\<open>TotalSavings\<close> is not fixed by the code.
\<close>

theorem table_sorted_descending:
  assumes "sort_values_contract sort_values"
    and "generate_comparison_data sort_values target_cycles year_days = Inr table"
  shows "descending table
       \<and> (\<exists>data. comparison_rows target_cycles year_days = Inr data
             \<and> mset table = mset data)"
proof -
  from assms(2) obtain data where d: "comparison_rows target_cycles year_days = Inr data"
    and t: "table = sort_values TotalSavings False data"
    by (auto simp: generate_comparison_data_def split: sum.splits)
  from assms(1) have "mset (sort_values TotalSavings False data) = mset data \<and>
      sorted (map TotalSavings (if False then sort_values TotalSavings False data
                                else rev (sort_values TotalSavings False data)))"
    unfolding sort_values_contract_def by blast
  then have "mset (sort_values TotalSavings False data) = mset data"
    and "descending (sort_values TotalSavings False data)"
    by (simp_all only: descending_iff if_False)
  with d t show ?thesis by simp
qed

theorem table_sorted_descending_witness:
  "sort_values_contract stable_sort
   \<and> generate_comparison_data stable_sort [1] 365 =
       Inr (stable_sort TotalSavings False
         (\<lparr>CyclesPerYear = 1, Label = ''Yearly (1)'', TotalSavings = enat 66795,
            TotalCouple = enat 133590, MaxDailyAmount = 365\<rparr> # alternative_strategies))
   \<and> descending (stable_sort TotalSavings False
         (\<lparr>CyclesPerYear = 1, Label = ''Yearly (1)'', TotalSavings = enat 66795,
            TotalCouple = enat 133590, MaxDailyAmount = 365\<rparr> # alternative_strategies))
   \<and> map TotalSavings (stable_sort TotalSavings False
         (\<lparr>CyclesPerYear = 1, Label = ''Yearly (1)'', TotalSavings = enat 66795,
            TotalCouple = enat 133590, MaxDailyAmount = 365\<rparr> # alternative_strategies)) =
     [enat 145600, enat 104000, enat 100150, enat 78000, enat 72800, enat 72000, enat 68900,
      enat 68900, enat 66795, enat 66795, enat 57380, enat 39000, enat 21900]"
proof -
  have l: "map TotalSavings (stable_sort TotalSavings False
         (\<lparr>CyclesPerYear = 1, Label = ''Yearly (1)'', TotalSavings = enat 66795,
            TotalCouple = enat 133590, MaxDailyAmount = 365\<rparr> # alternative_strategies)) =
     [enat 145600, enat 104000, enat 100150, enat 78000, enat 72800, enat 72000, enat 68900,
      enat 68900, enat 66795, enat 66795, enat 57380, enat 39000, enat 21900]"
    by (simp add: alternative_strategies_eval stable_sort_def)
  from table_sorted_descending [OF sort_values_contract_stable_sort yearly_table] yearly_table l
  show ?thesis by (simp add: sort_values_contract_stable_sort)
qed

text \<open>
  Claim C3 as stated, that rows of equal \<^verbatim>\<open>TotalSavings\<close> keep their order of insertion,
  does not follow from the code, which leaves pandas its default \<^verbatim>\<open>kind='quicksort'\<close>.
  \<open>unstable_sort\<close> keeps pandas' promise, and with it the table for
  \<^verbatim>\<open>target_cycles = [1]\<close> has Reverse 52-Week before 52-Week Challenge, both 68900,
  though the latter was inserted first.
\<close>

theorem tie_order_not_kept:
  "sort_values_contract unstable_sort
   \<and> comparison_rows [1] 365 =
       Inr (\<lparr>CyclesPerYear = 1, Label = ''Yearly (1)'', TotalSavings = enat 66795,
              TotalCouple = enat 133590, MaxDailyAmount = 365\<rparr> # alternative_strategies)
   \<and> generate_comparison_data unstable_sort [1] 365 =
       Inr (unstable_sort TotalSavings False
         (\<lparr>CyclesPerYear = 1, Label = ''Yearly (1)'', TotalSavings = enat 66795,
            TotalCouple = enat 133590, MaxDailyAmount = 365\<rparr> # alternative_strategies))
   \<and> map Label
         (\<lparr>CyclesPerYear = 1, Label = ''Yearly (1)'', TotalSavings = enat 66795,
            TotalCouple = enat 133590, MaxDailyAmount = 365\<rparr> # alternative_strategies) =
       [''Yearly (1)'', ''Fixed Daily (183'' @ baht @ '')'', ''52-Week Challenge (x50)'',
        ''Weekday Ladder'', ''Reverse 52-Week'', ''Payday Sync (1st&16th)'',
        ''No-Spend Weekends'', ''Aggressive Ladder'', ''Coffee Skip (60'' @ baht @ '')'',
        ''Weekend Binge'', ''Date Match (x10)'', ''Odd/Even Smasher'', ''Workday Escalator'']
   \<and> map Label (unstable_sort TotalSavings False
         (\<lparr>CyclesPerYear = 1, Label = ''Yearly (1)'', TotalSavings = enat 66795,
            TotalCouple = enat 133590, MaxDailyAmount = 365\<rparr> # alternative_strategies)) =
       [''Aggressive Ladder'', ''Weekend Binge'', ''Odd/Even Smasher'', ''No-Spend Weekends'',
        ''Weekday Ladder'', ''Payday Sync (1st&16th)'', ''Reverse 52-Week'',
        ''52-Week Challenge (x50)'', ''Yearly (1)'', ''Fixed Daily (183'' @ baht @ '')'',
        ''Date Match (x10)'', ''Workday Escalator'', ''Coffee Skip (60'' @ baht @ '')'']
   \<and> \<not> keeps_tie_order
         (\<lparr>CyclesPerYear = 1, Label = ''Yearly (1)'', TotalSavings = enat 66795,
            TotalCouple = enat 133590, MaxDailyAmount = 365\<rparr> # alternative_strategies)
         (unstable_sort TotalSavings False
           (\<lparr>CyclesPerYear = 1, Label = ''Yearly (1)'', TotalSavings = enat 66795,
              TotalCouple = enat 133590, MaxDailyAmount = 365\<rparr> # alternative_strategies))"
proof -
  define data where "data =
    \<lparr>CyclesPerYear = 1, Label = ''Yearly (1)'', TotalSavings = enat 66795,
      TotalCouple = enat 133590, MaxDailyAmount = 365\<rparr> # alternative_strategies"
  have "filter (\<lambda>r. TotalSavings r = enat 68900) (unstable_sort TotalSavings False data)
      \<noteq> filter (\<lambda>r. TotalSavings r = enat 68900) data"
    by (simp add: data_def alternative_strategies_eval unstable_sort_def)
  then have k: "\<not> keeps_tie_order data (unstable_sort TotalSavings False data)"
    unfolding keeps_tie_order_def by blast
  have a: "map Label data =
       [''Yearly (1)'', ''Fixed Daily (183'' @ baht @ '')'', ''52-Week Challenge (x50)'',
        ''Weekday Ladder'', ''Reverse 52-Week'', ''Payday Sync (1st&16th)'',
        ''No-Spend Weekends'', ''Aggressive Ladder'', ''Coffee Skip (60'' @ baht @ '')'',
        ''Weekend Binge'', ''Date Match (x10)'', ''Odd/Even Smasher'', ''Workday Escalator'']"
    by (simp add: data_def alternative_strategies_eval)
  have b: "map Label (unstable_sort TotalSavings False data) =
       [''Aggressive Ladder'', ''Weekend Binge'', ''Odd/Even Smasher'', ''No-Spend Weekends'',
        ''Weekday Ladder'', ''Payday Sync (1st&16th)'', ''Reverse 52-Week'',
        ''52-Week Challenge (x50)'', ''Yearly (1)'', ''Fixed Daily (183'' @ baht @ '')'',
        ''Date Match (x10)'', ''Workday Escalator'', ''Coffee Skip (60'' @ baht @ '')'']"
    by (simp add: data_def alternative_strategies_eval unstable_sort_def)
  have g: "generate_comparison_data unstable_sort [1] 365 =
      Inr (unstable_sort TotalSavings False data)"
    by (simp add: generate_comparison_data_def yearly_rows data_def)
  from k a b g yearly_rows sort_values_contract_unstable_sort
  show ?thesis unfolding data_def by (intro conjI)
qed

text \<open>
  Claim C4, as amended. A cycle count \<open>c \<le> 0\<close> anywhere in \<^verbatim>\<open>target_cycles\<close> makes
  \<^verbatim>\<open>generate_comparison_data\<close> fail, so no table and no record is produced. When it is
  the first entry the error is ZeroDivisionError for \<open>c = 0\<close>, raised by the floor
  division, and IndexError for \<open>c < 0\<close>, raised by \<^verbatim>\<open>lengths[0]\<close> after
  \<^verbatim>\<open>calculate_yearly_savings\<close> has returned \<^verbatim>\<open>(0, [])\<close> normally.
\<close>

theorem nonpositive_cycle_count_fails:
  assumes "c \<le> 0"
  shows "(c \<in> set target_cycles \<longrightarrow>
            (\<exists>e. generate_comparison_data sort_values target_cycles year_days = Inl e))
       \<and> generate_comparison_data sort_values (c # rest) year_days =
            Inl (if c = 0 then ZeroDivisionError else IndexError)
       \<and> (c < 0 \<longrightarrow> calculate_yearly_savings c year_days = Inr (0, []))"
proof -
  note r = nonpositive_cycle_record [OF assms, of year_days]
  have "\<exists>e. generate_comparison_data sort_values target_cycles year_days = Inl e"
    if "c \<in> set target_cycles"
    using cycles_loop_fails [OF that r, of "[]"]
    by (auto simp: generate_comparison_data_def comparison_rows_def)
  moreover have "generate_comparison_data sort_values (c # rest) year_days =
      Inl (if c = 0 then ZeroDivisionError else IndexError)"
    by (simp add: generate_comparison_data_def comparison_rows_def r)
  ultimately show ?thesis
    by (simp add: calculate_yearly_savings_negative)
qed

theorem nonpositive_cycle_count_fails_witness:
  "(- 1::int) \<le> 0
   \<and> (\<exists>e. generate_comparison_data stable_sort [- 1, 0] 365 = Inl e)
   \<and> generate_comparison_data stable_sort [- 1, 0] 365 = Inl IndexError
   \<and> calculate_yearly_savings (- 1) 365 = Inr (0, [])"
  using nonpositive_cycle_count_fails [of "- 1" "[- 1, 0]" stable_sort 365 "[0]"]
  by simp

text \<open>
  Claim C4 as stated fails: the code has no check of the cycle count. For \<open>- 1\<close> the
  partition returns \<^verbatim>\<open>(0, [])\<close> without raising and the error is the IndexError of
  \<^verbatim>\<open>lengths[0]\<close>; for \<open>0\<close> it is the ZeroDivisionError of \<^verbatim>\<open>year_days // num_cycles\<close>.
\<close>

theorem no_invalid_argument_check:
  "generate_comparison_data stable_sort [- 1] 365 = Inl IndexError
   \<and> calculate_yearly_savings (- 1) 365 = Inr (0, [])
   \<and> generate_comparison_data stable_sort [0] 365 = Inl ZeroDivisionError"
  by (simp add: generate_comparison_data_def comparison_rows_def cycle_record_zero
      cycle_record_negative calculate_yearly_savings_negative)

text \<open>
  Claim C5. Every table holds the three fixed strategies with the totals the specification
  states: the fixed daily amount with \<open>183 * 365 = 66795\<close>, the 52-week challenge with
  \<open>50 * (52 * 53 / 2) = 68900\<close> and the weekday ladder with \<open>52 * 1400 = 72800\<close>.
\<close>

theorem custom_totals:
  assumes "sort_values_desc sort_values"
    and "generate_comparison_data sort_values target_cycles year_days = Inr table"
  shows "\<lparr>CyclesPerYear = 0, Label = ''Fixed Daily (183'' @ baht @ '')'',
          TotalSavings = enat (183 * 365), TotalCouple = enat 133590,
          MaxDailyAmount = 183\<rparr> \<in> set table
       \<and> \<lparr>CyclesPerYear = 0, Label = ''52-Week Challenge (x50)'',
          TotalSavings = enat (50 * (52 * 53 div 2)), TotalCouple = enat 137800,
          MaxDailyAmount = 2600\<rparr> \<in> set table
       \<and> \<lparr>CyclesPerYear = 0, Label = ''Weekday Ladder'',
          TotalSavings = enat (52 * 1400), TotalCouple = enat 145600,
          MaxDailyAmount = 350\<rparr> \<in> set table
       \<and> (183::nat) * 365 = 66795 \<and> (50::nat) * (52 * 53 div 2) = 68900
       \<and> (52::nat) * 1400 = 72800
       \<and> py_num (fixed_daily * 365) = enat 66795
       \<and> py_num w_total = enat 68900
       \<and> py_num ladder_year_total = enat 72800"
proof -
  have "\<lparr>CyclesPerYear = 0, Label = ''Fixed Daily (183'' @ baht @ '')'',
          TotalSavings = enat (183 * 365), TotalCouple = enat 133590,
          MaxDailyAmount = 183\<rparr> \<in> set alternative_strategies"
    by (simp add: alternative_strategies_eval)
  moreover have "\<lparr>CyclesPerYear = 0, Label = ''52-Week Challenge (x50)'',
          TotalSavings = enat (50 * (52 * 53 div 2)), TotalCouple = enat 137800,
          MaxDailyAmount = 2600\<rparr> \<in> set alternative_strategies"
    by (simp add: alternative_strategies_eval)
  moreover have "\<lparr>CyclesPerYear = 0, Label = ''Weekday Ladder'',
          TotalSavings = enat (52 * 1400), TotalCouple = enat 145600,
          MaxDailyAmount = 350\<rparr> \<in> set alternative_strategies"
    by (simp add: alternative_strategies_eval)
  ultimately show ?thesis
    using alternatives_in_table [OF assms]
    by (auto simp: totals_eval py_num_def)
qed

theorem custom_totals_witness:
  "sort_values_desc stable_sort
   \<and> generate_comparison_data stable_sort [] 365 = Inr (stable_sort TotalSavings False alternative_strategies)
   \<and> \<lparr>CyclesPerYear = 0, Label = ''Fixed Daily (183'' @ baht @ '')'',
          TotalSavings = enat 66795, TotalCouple = enat 133590,
          MaxDailyAmount = 183\<rparr> \<in> set (stable_sort TotalSavings False alternative_strategies)
   \<and> \<lparr>CyclesPerYear = 0, Label = ''52-Week Challenge (x50)'',
          TotalSavings = enat 68900, TotalCouple = enat 137800,
          MaxDailyAmount = 2600\<rparr> \<in> set (stable_sort TotalSavings False alternative_strategies)
   \<and> \<lparr>CyclesPerYear = 0, Label = ''Weekday Ladder'',
          TotalSavings = enat 72800, TotalCouple = enat 145600,
          MaxDailyAmount = 350\<rparr> \<in> set (stable_sort TotalSavings False alternative_strategies)"
proof -
  have g: "generate_comparison_data stable_sort [] 365 = Inr (stable_sort TotalSavings False alternative_strategies)"
    by (simp add: generate_comparison_data_def no_cycles_rows)
  from custom_totals [OF sort_values_desc_stable_sort g] g
  show ?thesis by (simp add: sort_values_desc_stable_sort)
qed

text \<open>
  Claim C6, as amended. For every record of the table, \<^verbatim>\<open>TotalCouple\<close> is the float
  product \<^verbatim>\<open>TotalSavings * 2\<close>: exactly twice \<^verbatim>\<open>TotalSavings\<close> where that is below
  \<open>2 ^ 1024\<close>, and \<^verbatim>\<open>inf\<close> otherwise. The doubling is exact in every record when
  \<open>0 \<le> year_days \<le> 134217727\<close>.
\<close>

theorem couple_is_double:
  assumes "sort_values_desc sort_values"
    and "generate_comparison_data sort_values target_cycles year_days = Inr table"
    and "r \<in> set table"
  shows "TotalCouple r =
           (if 2 * TotalSavings r < enat (2 ^ 1024) then 2 * TotalSavings r else \<infinity>)
       \<and> (0 \<le> year_days \<and> year_days \<le> 134217727 \<longrightarrow> TotalCouple r = 2 * TotalSavings r)"
proof -
  from table_rows [OF assms]
  show ?thesis
  proof
    assume "\<exists>c. c \<in> set target_cycles \<and> cycle_record c year_days = Inr r"
    then obtain c where c: "cycle_record c year_days = Inr r" by blast
    from cycle_record_couple [OF c]
    have d: "TotalCouple r =
        (if 2 * TotalSavings r < enat (2 ^ 1024) then 2 * TotalSavings r else \<infinity>)"
      by (simp only: float_mul_double_exact)
    have "TotalCouple r = 2 * TotalSavings r"
      if "0 \<le> year_days" and "year_days \<le> 134217727"
    proof -
      from cycle_record_exact [OF c that]
      obtain n where n: "TotalSavings r = enat n" "n < 2 ^ 53" by blast
      from d show ?thesis unfolding n(1) double_small [OF n(2)] .
    qed
    with d show ?thesis by blast
  next
    assume a: "r \<in> set alternative_strategies"
    from alternative_couple [OF a] have e: "TotalCouple r = 2 * TotalSavings r" by blast
    from a have "2 * TotalSavings r < enat (2 ^ 1024)"
      by (auto simp: alternative_strategies_eval numeral_eq_enat)
    with e show ?thesis by simp
  qed
qed

theorem couple_is_double_witness:
  "sort_values_desc stable_sort
   \<and> generate_comparison_data stable_sort [1] 365 =
       Inr (stable_sort TotalSavings False
         (\<lparr>CyclesPerYear = 1, Label = ''Yearly (1)'', TotalSavings = enat 66795,
            TotalCouple = enat 133590, MaxDailyAmount = 365\<rparr> # alternative_strategies))
   \<and> \<lparr>CyclesPerYear = 1, Label = ''Yearly (1)'', TotalSavings = enat 66795,
        TotalCouple = enat 133590, MaxDailyAmount = 365\<rparr>
       \<in> set (stable_sort TotalSavings False
         (\<lparr>CyclesPerYear = 1, Label = ''Yearly (1)'', TotalSavings = enat 66795,
            TotalCouple = enat 133590, MaxDailyAmount = 365\<rparr> # alternative_strategies))
   \<and> (0::int) \<le> 365 \<and> (365::int) \<le> 134217727
   \<and> 2 * enat 66795 < enat (2 ^ 1024)
   \<and> enat 133590 = 2 * enat 66795"
  using couple_is_double [OF sort_values_desc_stable_sort yearly_table yearly_in_table]
    yearly_table yearly_in_table sort_values_desc_stable_sort
  by (simp add: numeral_eq_enat)

text \<open>
  Claim C6 as stated, that \<^verbatim>\<open>TotalCouple\<close> is exactly twice \<^verbatim>\<open>TotalSavings\<close> in every
  record, fails where the doubling leaves the floats. For one cycle of \<open>2 ^ 512\<close> days
  the record has the finite \<^verbatim>\<open>TotalSavings\<close> \<open>2 ^ 1023\<close>, and its \<^verbatim>\<open>TotalCouple\<close> is
  \<^verbatim>\<open>inf\<close>, not \<open>2 ^ 1024\<close>.
\<close>

theorem couple_not_double:
  "sort_values_desc stable_sort
   \<and> generate_comparison_data stable_sort [1] (2 ^ 512) =
       Inr (stable_sort TotalSavings False
         (\<lparr>CyclesPerYear = 1, Label = ''Yearly (1)'', TotalSavings = enat (2 ^ 1023),
            TotalCouple = \<infinity>, MaxDailyAmount = 2 ^ 512\<rparr> # alternative_strategies))
   \<and> \<lparr>CyclesPerYear = 1, Label = ''Yearly (1)'', TotalSavings = enat (2 ^ 1023),
        TotalCouple = \<infinity>, MaxDailyAmount = 2 ^ 512\<rparr>
       \<in> set (stable_sort TotalSavings False
         (\<lparr>CyclesPerYear = 1, Label = ''Yearly (1)'', TotalSavings = enat (2 ^ 1023),
            TotalCouple = \<infinity>, MaxDailyAmount = 2 ^ 512\<rparr> # alternative_strategies))
   \<and> 2 * TotalSavings
         \<lparr>CyclesPerYear = 1, Label = ''Yearly (1)'', TotalSavings = enat (2 ^ 1023),
          TotalCouple = \<infinity>, MaxDailyAmount = 2 ^ 512\<rparr> = enat (2 ^ 1024)
   \<and> TotalCouple
         \<lparr>CyclesPerYear = 1, Label = ''Yearly (1)'', TotalSavings = enat (2 ^ 1023),
          TotalCouple = \<infinity>, MaxDailyAmount = 2 ^ 512\<rparr> \<noteq>
       2 * TotalSavings
         \<lparr>CyclesPerYear = 1, Label = ''Yearly (1)'', TotalSavings = enat (2 ^ 1023),
          TotalCouple = \<infinity>, MaxDailyAmount = 2 ^ 512\<rparr>"
  using huge_year_table
  by (simp add: sort_values_desc_set [OF sort_values_desc_stable_sort]
      sort_values_desc_stable_sort numeral_eq_enat)

text \<open>
  Claim C7, as amended. Every record of the table has \<^verbatim>\<open>TotalSavings\<close> not negative and
  \<^verbatim>\<open>MaxDailyAmount\<close> at most \<^verbatim>\<open>TotalSavings\<close>; for a day count \<open>year_days \<ge> 0\<close> its
  \<^verbatim>\<open>MaxDailyAmount\<close> is not negative either. A float of the model has no sign to lose:
  what the code divides, \<open>l * (l + 1)\<close>, is even and not negative for every length \<open>l\<close>,
  also a negative one, and the totals of the alternative strategies are ints that are
  not negative. A negative \<^verbatim>\<open>MaxDailyAmount\<close> is below every total for that reason, which
  is how \<open>py_num\<close> compares it.
\<close>

theorem record_invariants:
  assumes "sort_values_desc sort_values"
    and "generate_comparison_data sort_values target_cycles year_days = Inr table"
    and "r \<in> set table"
  shows "0 \<le> TotalSavings r
       \<and> py_num (MaxDailyAmount r) \<le> TotalSavings r
       \<and> (0 \<le> year_days \<longrightarrow> 0 \<le> MaxDailyAmount r)
       \<and> (\<forall>l::int. even (l * (l + 1)) \<and> 0 \<le> l * (l + 1))
       \<and> list_all (\<lambda>s. 0 \<le> s)
           [fixed_daily * 365, w_total, ladder_year_total, payday_total, weekday_total,
            agg_ladder_total, coffee_total, binge_total, date_match_total, odd_even_total,
            escalator_total]"
proof -
  from table_rows [OF assms]
  have "py_num (MaxDailyAmount r) \<le> TotalSavings r
      \<and> (0 \<le> year_days \<longrightarrow> 0 \<le> MaxDailyAmount r)"
  proof
    assume "\<exists>c. c \<in> set target_cycles \<and> cycle_record c year_days = Inr r"
    then obtain c where c: "cycle_record c year_days = Inr r" by blast
    from cycle_record_peak_le [OF c] cycle_record_peak [OF c] show ?thesis by blast
  next
    assume "r \<in> set alternative_strategies"
    from alternative_peak [OF this] show ?thesis by blast
  qed
  moreover have "\<forall>l::int. even (l * (l + 1)) \<and> 0 \<le> l * (l + 1)"
    using cycle_product by blast
  ultimately show ?thesis using nonneg_totals by simp
qed

theorem record_invariants_witness:
  "sort_values_desc stable_sort
   \<and> generate_comparison_data stable_sort [1] 365 =
       Inr (stable_sort TotalSavings False
         (\<lparr>CyclesPerYear = 1, Label = ''Yearly (1)'', TotalSavings = enat 66795,
            TotalCouple = enat 133590, MaxDailyAmount = 365\<rparr> # alternative_strategies))
   \<and> \<lparr>CyclesPerYear = 1, Label = ''Yearly (1)'', TotalSavings = enat 66795,
        TotalCouple = enat 133590, MaxDailyAmount = 365\<rparr>
       \<in> set (stable_sort TotalSavings False
         (\<lparr>CyclesPerYear = 1, Label = ''Yearly (1)'', TotalSavings = enat 66795,
            TotalCouple = enat 133590, MaxDailyAmount = 365\<rparr> # alternative_strategies))
   \<and> (0::enat) \<le> enat 66795 \<and> py_num 365 \<le> enat 66795 \<and> (0::int) \<le> 365"
  using record_invariants [OF sort_values_desc_stable_sort yearly_table yearly_in_table]
    yearly_table yearly_in_table sort_values_desc_stable_sort
  by simp

text \<open>
  Claim C7 as stated covers every \<open>year_days\<close>, and fails for a negative one. With
  \<open>year_days = - 5\<close> and two cycles the lengths are \<open>- 2\<close> and \<open>- 3\<close>, and the record has
  the \<^verbatim>\<open>MaxDailyAmount\<close> \<open>- 2\<close>.
\<close>

theorem negative_peak:
  "sort_values_desc stable_sort
   \<and> generate_comparison_data stable_sort [2] (- 5) =
       Inr (stable_sort TotalSavings False
         (\<lparr>CyclesPerYear = 2, Label = ''Semi-Annual (2)'', TotalSavings = enat 4,
            TotalCouple = enat 8, MaxDailyAmount = - 2\<rparr> # alternative_strategies))
   \<and> \<lparr>CyclesPerYear = 2, Label = ''Semi-Annual (2)'', TotalSavings = enat 4,
        TotalCouple = enat 8, MaxDailyAmount = - 2\<rparr>
       \<in> set (stable_sort TotalSavings False
         (\<lparr>CyclesPerYear = 2, Label = ''Semi-Annual (2)'', TotalSavings = enat 4,
            TotalCouple = enat 8, MaxDailyAmount = - 2\<rparr> # alternative_strategies))
   \<and> \<not> 0 \<le> MaxDailyAmount
         \<lparr>CyclesPerYear = 2, Label = ''Semi-Annual (2)'', TotalSavings = enat 4,
          TotalCouple = enat 8, MaxDailyAmount = - 2\<rparr>"
  using negative_year_table
  by (simp add: sort_values_desc_set [OF sort_values_desc_stable_sort]
      sort_values_desc_stable_sort)

text \<open>
  Claim C10. For 365 days and any list of cycle counts \<open>\<ge> 1\<close>, also the empty one, the
  table is produced and its first record is the Aggressive Ladder with 145600: every
  cycle record totals at most 66795 and every other alternative at most 104000.
\<close>

theorem aggressive_ladder_first:
  assumes srt: "sort_values_desc sort_values" and pos: "\<forall>c\<in>set target_cycles. 1 \<le> c"
  shows "(\<exists>table. generate_comparison_data sort_values target_cycles 365 = Inr table
            \<and> table \<noteq> []
            \<and> hd table =
                \<lparr>CyclesPerYear = 0, Label = ''Aggressive Ladder'', TotalSavings = enat 145600,
                  TotalCouple = enat 291200, MaxDailyAmount = 700\<rparr>)
       \<and> (\<forall>c\<in>set target_cycles.
            \<exists>r. cycle_record c 365 = Inr r \<and> TotalSavings r \<le> enat 66795)
       \<and> (\<forall>r\<in>set alternative_strategies.
            r = \<lparr>CyclesPerYear = 0, Label = ''Aggressive Ladder'', TotalSavings = enat 145600,
                  TotalCouple = enat 291200, MaxDailyAmount = 700\<rparr>
            \<or> TotalSavings r \<le> enat 104000)"
proof -
  define top where "top = \<lparr>CyclesPerYear = 0, Label = ''Aggressive Ladder'',
    TotalSavings = enat 145600, TotalCouple = enat 291200, MaxDailyAmount = 700\<rparr>"
  have cyc: "\<exists>r. cycle_record c 365 = Inr r \<and> TotalSavings r \<le> enat 66795"
    if "c \<in> set target_cycles" for c
    using that pos by (intro cycle_record_365) simp
  then obtain rs
    where rs: "list_all2 (\<lambda>c r. cycle_record c 365 = Inr r \<and> TotalSavings r \<le> enat 66795)
      target_cycles rs"
    using list_all2_exists
      [of target_cycles "\<lambda>c r. cycle_record c 365 = Inr r \<and> TotalSavings r \<le> enat 66795"]
    by blast
  then have rs1: "list_all2 (\<lambda>c r. cycle_record c 365 = Inr r) target_cycles rs"
    by (rule list_all2_mono) simp
  have small: "TotalSavings r \<le> enat 66795" if "r \<in> set rs" for r
  proof -
    from that obtain i where "i < length rs" and "rs ! i = r"
      by (auto simp: in_set_conv_nth)
    with rs show ?thesis by (auto simp: list_all2_conv_all_nth)
  qed
  define table where "table = sort_values TotalSavings False (rs @ alternative_strategies)"
  have g: "generate_comparison_data sort_values target_cycles 365 = Inr table"
    using cycles_loop_Inr [of target_cycles 365 "[]" rs] rs1
    by (simp add: generate_comparison_data_def comparison_rows_def table_def)
  have set_t: "set table = set rs \<union> set alternative_strategies"
    by (simp add: table_def sort_values_desc_set [OF srt])
  have desc: "descending table"
    using srt by (simp add: table_def sort_values_desc_def)
  have top_in: "top \<in> set table"
    using aggressive_ladder_in_alternatives by (simp add: set_t top_def)
  then have ne: "table \<noteq> []" by auto
  then have hd_in: "hd table \<in> set table" by simp
  have "TotalSavings top \<le> TotalSavings (hd table)"
    using desc top_in by (rule descending_hd)
  then have big: "enat 145600 \<le> TotalSavings (hd table)" by (simp add: top_def)
  have "hd table \<notin> set rs"
  proof
    assume "hd table \<in> set rs"
    then have "TotalSavings (hd table) \<le> enat 66795" by (rule small)
    with big have "enat 145600 \<le> enat 66795" by (rule order_trans)
    then show False by simp
  qed
  with hd_in set_t have "hd table \<in> set alternative_strategies" by simp
  then have "hd table = top" using big unfolding top_def by (rule alternatives_top)
  with g ne have "\<exists>table. generate_comparison_data sort_values target_cycles 365 = Inr table
      \<and> table \<noteq> [] \<and> hd table = top"
    by blast
  then show ?thesis
    using cyc alternatives_others unfolding top_def by blast
qed

theorem aggressive_ladder_first_witness:
  "sort_values_desc stable_sort \<and> (1::int) \<le> 1
   \<and> generate_comparison_data stable_sort [1] 365 =
       Inr (stable_sort TotalSavings False
         (\<lparr>CyclesPerYear = 1, Label = ''Yearly (1)'', TotalSavings = enat 66795,
            TotalCouple = enat 133590, MaxDailyAmount = 365\<rparr> # alternative_strategies))
   \<and> hd (stable_sort TotalSavings False
         (\<lparr>CyclesPerYear = 1, Label = ''Yearly (1)'', TotalSavings = enat 66795,
            TotalCouple = enat 133590, MaxDailyAmount = 365\<rparr> # alternative_strategies)) =
       \<lparr>CyclesPerYear = 0, Label = ''Aggressive Ladder'', TotalSavings = enat 145600,
         TotalCouple = enat 291200, MaxDailyAmount = 700\<rparr>"
  using aggressive_ladder_first [OF sort_values_desc_stable_sort, of "[1]"]
    sort_values_desc_stable_sort
  by (simp add: yearly_table)

end
